theory Spec2Isabelle
  imports Main
begin

section \<open>Constants of asg_service.py\<close>

definition START_BATCH_SIZE :: int where
  "START_BATCH_SIZE = 5"

definition STOP_BATCH_SIZE :: int where
  "STOP_BATCH_SIZE = 50"

definition ASG_STATE_RUNNING :: string where
  "ASG_STATE_RUNNING = ''running''"

definition ASG_STATE_TERMINATED :: string where
  "ASG_STATE_TERMINATED = ''stopped''"

definition ASG_SCHEDULABLE_STATES :: "string set" where
  "ASG_SCHEDULABLE_STATES = {ASG_STATE_RUNNING, ASG_STATE_TERMINATED}"

definition ASG_STOPPED_STATES :: "string set" where
  "ASG_STOPPED_STATES = {ASG_STATE_TERMINATED}"

definition ASG_STARTED_STATES :: "string set" where
  "ASG_STARTED_STATES = {ASG_STATE_RUNNING}"

text \<open>
  Modelled from the spec: \<open>InstanceSchedule.STATE_RUNNING\<close> and
  \<open>InstanceSchedule.STATE_STOPPED\<close> live in the configuration package, which is not part
  of the sources at hand. The spec gives the reached state of the output stream as
  \<open>running\<close> or \<open>stopped\<close>.
\<close>

definition STATE_RUNNING :: string where
  "STATE_RUNNING = ''running''"

definition STATE_STOPPED :: string where
  "STATE_STOPPED = ''stopped''"

section \<open>Batching (lines 81-90)\<close>

text \<open>
  \<open>instance_batches\<close> is a generator; the list of everything it yields is modelled. The
  loop variable \<open>instance_buffer\<close> is the third argument. Python compares
  \<open>len(instance_buffer) == size\<close> on unbounded integers, so \<open>sz\<close> is an \<open>int\<close>.
\<close>

fun instance_batches_loop :: "'a list \<Rightarrow> int \<Rightarrow> 'a list \<Rightarrow> 'a list list" where
  "instance_batches_loop [] sz instance_buffer =
     (if length instance_buffer > 0 then [instance_buffer] else [])"
| "instance_batches_loop (asg # rest) sz instance_buffer =
     (let buffer' = instance_buffer @ [asg]
      in if int (length buffer') = sz
         then buffer' # instance_batches_loop rest sz []
         else instance_batches_loop rest sz buffer')"

definition instance_batches :: "'a list \<Rightarrow> int \<Rightarrow> 'a list list" where
  "instance_batches asg_instances sz = instance_batches_loop asg_instances sz []"

section \<open>Discovery data and state classification (lines 108, 138-181, 186-197)\<close>

type_synonym tag = "string \<times> string"

text \<open>
  One group of a \<open>describe_auto_scaling_groups\<close> response, with the fields the two
  JMESPath projections of the source read.
\<close>

record aws_group =
  GroupName :: string
  GroupDesiredCapacity :: int
  GroupMinSize :: int
  GroupInstances :: "string list"
  GroupTags :: "tag list option"

text \<open>
  \<open>GroupInstances\<close> holds the \<open>LifecycleState\<close> of each instance of the group. Both
  projections compute \<open>InstanceNumber\<close> as
  \<open>length(Instances[?LifecycleState=='InService'])\<close>.
\<close>

definition in_service_count :: "aws_group \<Rightarrow> nat" where
  "in_service_count g = length (filter (\<lambda>s. s = ''InService'') (GroupInstances g))"

text \<open>The dict that the projection of line 108 builds for one group.\<close>

record asg_row =
  AutoScalingGroupName :: string
  DesiredCapacity :: int
  MinSize :: int
  InstanceNumber :: nat
  Tags :: "tag list option"

definition jmes_row :: "aws_group \<Rightarrow> asg_row" where
  "jmes_row g =
     \<lparr>AutoScalingGroupName = GroupName g, DesiredCapacity = GroupDesiredCapacity g,
      MinSize = GroupMinSize g, InstanceNumber = in_service_count g, Tags = GroupTags g\<rparr>"

text \<open>
  The filter \<open>[?Tags] | [?contains(Tags[*].Key, tagname)]\<close> of line 109: groups with a
  non-empty tag list that holds the scheduling tag.
\<close>

definition jmes_schedulable :: "string \<Rightarrow> aws_group list \<Rightarrow> asg_row list" where
  "jmes_schedulable tagname groups =
     filter (\<lambda>r. case Tags r of None \<Rightarrow> False | Some ts \<Rightarrow> ts \<noteq> [] \<and> tagname \<in> set (map fst ts))
       (map jmes_row groups)"

text \<open>The dict built by \<open>_select_instance_data\<close>; the fields are the \<open>schedulers.INST_*\<close> keys.\<close>

record asg_data =
  inst_id :: string
  inst_name :: string
  inst_asg_desired_capacity :: int
  inst_asg_min_size :: int
  inst_schedule :: "string option"
  inst_state :: string
  inst_allow_resize :: bool
  inst_is_running :: bool
  inst_is_terminated :: bool
  inst_current_state :: string
  inst_maintenance_window :: "string option"
  inst_instance_type :: string
  inst_asg_is_ecs :: string
  inst_tags :: "string \<rightharpoonup> string"

text \<open>
  \<open>get_tags\<close>: a dict comprehension over the tag list, so a later entry overwrites an
  earlier one with the same key; no \<open>Tags\<close> key gives the empty dict.
\<close>

definition get_tags :: "asg_row \<Rightarrow> (string \<rightharpoonup> string)" where
  "get_tags asg = (case Tags asg of None \<Rightarrow> Map.empty | Some ts \<Rightarrow> map_of (rev ts))"

definition select_instance_data :: "asg_row \<Rightarrow> string \<Rightarrow> asg_data" where
  "select_instance_data asg tagname =
     (let tags = get_tags asg;
          asg_is_ecs = (if tags ''aws:cloudformation:logical-id'' = Some ''ECSAutoScalingGroup''
                        then ''true'' else ''false'');
          state = (if InstanceNumber asg = 0 then ASG_STATE_TERMINATED else ASG_STATE_RUNNING);
          is_running = (ASG_STATE_RUNNING = state);
          is_terminated = (state = ASG_STATE_TERMINATED)
      in \<lparr>inst_id = AutoScalingGroupName asg,
          inst_name = AutoScalingGroupName asg,
          inst_asg_desired_capacity = DesiredCapacity asg,
          inst_asg_min_size = MinSize asg,
          inst_schedule = tags tagname,
          inst_state = state,
          inst_allow_resize = False,
          inst_is_running = is_running,
          inst_is_terminated = is_terminated,
          inst_current_state = (if is_running then STATE_RUNNING else STATE_STOPPED),
          inst_maintenance_window = None,
          inst_instance_type = ''asg'',
          inst_asg_is_ecs = asg_is_ecs,
          inst_tags = tags\<rparr>)"

definition is_in_schedulable_state :: "asg_data \<Rightarrow> bool" where
  "is_in_schedulable_state asg = (inst_state asg \<in> ASG_SCHEDULABLE_STATES)"

text \<open>
  The pure part of \<open>get_asg_status\<close> (lines 188-197): the projection to name and
  in-service count, then the loop that labels each row.
\<close>

definition jmes_status :: "aws_group list \<Rightarrow> (string \<times> nat) list" where
  "jmes_status groups = map (\<lambda>g. (GroupName g, in_service_count g)) groups"

fun status_of_row :: "string \<times> nat \<Rightarrow> string \<times> string" where
  "status_of_row (name, n) = (name, if n = 0 then ''stopped'' else ''running'')"

definition asg_status_of :: "aws_group list \<Rightarrow> (string \<times> string) list" where
  "asg_status_of status_resp = map status_of_row (jmes_status status_resp)"

section \<open>Exceptions, control-plane calls and the environment\<close>

text \<open>
  The exceptions that matter to the handlers of the source: \<open>except ClientError\<close> catches
  only the first constructor, \<open>except Exception\<close> catches all of them. \<open>IndexError\<close>
  is what \<open>result[0]\<close> raises on an empty list, \<open>ValueError\<close> what \<open>int(...)\<close> raises
  on a malformed string, \<open>TypeError\<close> what iterating \<open>None\<close> raises.
\<close>

datatype error =
    ClientError string
  | IndexError
  | ValueError
  | TypeError
  | OtherException string

fun str_of_error :: "error \<Rightarrow> string" where
  "str_of_error (ClientError m) = m"
| "str_of_error IndexError = ''list index out of range''"
| "str_of_error ValueError = ''invalid literal for int()''"
| "str_of_error TypeError = ''object is not iterable''"
| "str_of_error (OtherException m) = m"

text \<open>
  Every call the engine makes to a collaborator, with the arguments the source passes.
  \<open>DeleteTags asg key\<close> and \<open>CreateOrUpdateTags asg key val propagate\<close> carry one tag
  each, as the source sends them; \<open>Sleep\<close> is \<open>time.sleep\<close>.
\<close>

datatype api_call =
    DescribeGroups "string list"
  | UpdateGroup string int int
  | DescribeHooks string
  | GetParameter string
  | PutHook string string int
  | DeleteTags string string
  | CreateOrUpdateTags string string string bool
  | Sleep nat

text \<open>A Python value that is either an integer or a string.\<close>

datatype py_value = PyInt int | PyStr string

datatype level = INFO | WARNING | ERROR

text \<open>A log line: its level, its format string and the arguments of the format.\<close>

datatype log_entry = Log level string "py_value list"

text \<open>
  The engine's observable effects: the calls it has made, each with the exception it
  raised if any, and the log lines it has written, both in order.
\<close>

record world =
  trace :: "(api_call \<times> error option) list"
  logs :: "log_entry list"

definition empty_world :: world where
  "empty_world = \<lparr>trace = [], logs = []\<rparr>"

definition tick :: "world \<Rightarrow> nat" where
  "tick w = length (trace w)"

definition record_call :: "api_call \<Rightarrow> error option \<Rightarrow> world \<Rightarrow> world" where
  "record_call c r w = w\<lparr>trace := trace w @ [(c, r)]\<rparr>"

definition logger :: "level \<Rightarrow> string \<Rightarrow> py_value list \<Rightarrow> world \<Rightarrow> world" where
  "logger l template args w = w\<lparr>logs := logs w @ [Log l template args]\<rparr>"

text \<open>
  The collaborators (the retrying autoscaling client and the parameter store) answer
  each call; what they answer is not the engine's to decide, so it is a parameter. The
  first argument of every answer function is the number of calls made before this one,
  which lets an environment answer the same question differently over time.
\<close>

record env =
  describe_auto_scaling_groups :: "nat \<Rightarrow> string list \<Rightarrow> error + aws_group list"
  update_auto_scaling_group :: "nat \<Rightarrow> string \<Rightarrow> int \<Rightarrow> int \<Rightarrow> error option"
  describe_lifecycle_hooks :: "nat \<Rightarrow> string \<Rightarrow> error + string list"
  get_parameter :: "nat \<Rightarrow> string \<Rightarrow> error + string"
  put_lifecycle_hook :: "nat \<Rightarrow> string \<Rightarrow> string \<Rightarrow> int \<Rightarrow> error option"
  delete_tags :: "nat \<Rightarrow> string \<Rightarrow> string \<Rightarrow> error option"
  create_or_update_tags :: "nat \<Rightarrow> string \<Rightarrow> string \<Rightarrow> string \<Rightarrow> error option"

section \<open>Message templates (lines 39-50)\<close>

definition ERR_STARTING_ASG_INSTANCES :: string where
  "ERR_STARTING_ASG_INSTANCES = ''Error starting asg instances {}, ({})''"

definition ERR_STOPPING_ASG_INSTANCES :: string where
  "ERR_STOPPING_ASG_INSTANCES = ''Error stopping asg instances {}, ({})''"

definition INF_ADD_KEYS :: string where
  "INF_ADD_KEYS = ''Adding {} key(s) {} to asg instance(s) {}''"

definition INFO_REMOVING_KEYS :: string where
  "INFO_REMOVING_KEYS = ''Removing {} key(s) {} from asg instance(s) {}''"

definition WARN_STARTED_ASG_INSTANCES_TAGGING :: string where
  "WARN_STARTED_ASG_INSTANCES_TAGGING = ''Error deleting or creating tags for started asg {} ({})''"

definition WARN_STOPPED_ASG_INSTANCES_TAGGING :: string where
  "WARN_STOPPED_ASG_INSTANCES_TAGGING = ''Error deleting or creating tags for stopped asg {} ({})''"

definition WARNING_ASG_INSTANCE_NOT_STARTING :: string where
  "WARNING_ASG_INSTANCE_NOT_STARTING = ''ASG instance {} is not started''"

definition WARNING_ASG_INSTANCE_NOT_STOPPING :: string where
  "WARNING_ASG_INSTANCE_NOT_STOPPING = ''ASG instance {} is not stopped''"

definition ERR_HOOK_TIMEOUT :: string where
  "ERR_HOOK_TIMEOUT = ''Error whiling updating the termination lifecycle hook heartbeat timeout : {}''"

text \<open>\<open>sep.join(xs)\<close> of Python.\<close>

fun join :: "string \<Rightarrow> string list \<Rightarrow> string" where
  "join sep [] = []"
| "join sep [x] = x"
| "join sep (x # y # ys) = x @ sep @ join sep (y # ys)"

text \<open>\<open>str(tags)\<close> of a list of \<open>{"Key": k, "Value": v}\<close> dicts (escapes left aside).\<close>

definition quoted :: "string \<Rightarrow> string" where
  "quoted s = CHR 0x27 # s @ [CHR 0x27]"

definition str_of_tag :: "tag \<Rightarrow> string" where
  "str_of_tag t =
     ''{'' @ quoted ''Key'' @ '': '' @ quoted (fst t) @ '', '' @ quoted ''Value'' @ '': ''
       @ quoted (snd t) @ ''}''"

definition str_of_tags :: "tag list \<Rightarrow> string" where
  "str_of_tags ts = ''['' @ join '', '' (map str_of_tag ts) @ '']''"

text \<open>
  \<open>",".join(asg)\<close> where \<open>asg\<close> is one group name (lines 261, 271, 390, 402): the
  characters of the name, comma-separated.
\<close>

definition join_chars :: "string \<Rightarrow> string" where
  "join_chars asg = join '','' (map (\<lambda>c. [c]) asg)"

section \<open>Status poll and lifecycle-hook helpers (lines 186-213)\<close>

definition get_asg_status ::
  "env \<Rightarrow> string list \<Rightarrow> world \<Rightarrow> world \<times> (error + (string \<times> string) list)" where
  "get_asg_status client asg_ids w =
     (case describe_auto_scaling_groups client (tick w) asg_ids of
        Inl e \<Rightarrow> (record_call (DescribeGroups asg_ids) (Some e) w, Inl e)
      | Inr status_resp \<Rightarrow>
          (record_call (DescribeGroups asg_ids) None w, Inr (asg_status_of status_resp)))"

text \<open>\<open>contains(LifecycleHookName, 'Termination')\<close>: substring test.\<close>

fun starts_with :: "string \<Rightarrow> string \<Rightarrow> bool" where
  "starts_with s [] = True"
| "starts_with [] (p # ps) = False"
| "starts_with (c # cs) (p # ps) = (c = p \<and> starts_with cs ps)"

fun contains :: "string \<Rightarrow> string \<Rightarrow> bool" where
  "contains [] sub = (sub = [])"
| "contains (c # cs) sub = (starts_with (c # cs) sub \<or> contains cs sub)"

text \<open>
  The environment answers \<open>describe_lifecycle_hooks\<close> with the hook names of the group;
  the function returns those that contain \<open>Termination\<close>.
\<close>

definition get_asg_termination_lifecycle_hook_name ::
  "env \<Rightarrow> string \<Rightarrow> world \<Rightarrow> world \<times> (error + string list)" where
  "get_asg_termination_lifecycle_hook_name client asg w =
     (case describe_lifecycle_hooks client (tick w) asg of
        Inl e \<Rightarrow> (record_call (DescribeHooks asg) (Some e) w, Inl e)
      | Inr hooks \<Rightarrow>
          (record_call (DescribeHooks asg) None w,
           Inr (filter (\<lambda>h. contains h ''Termination'') hooks)))"

text \<open>
  The timeout helper returns the parameter's string value, or the integer 300 after a
  \<open>ClientError\<close>; any other exception leaves the helper.
\<close>

definition parameter_name :: "string \<Rightarrow> string" where
  "parameter_name asg = ''/ecs/'' @ asg @ ''/lifecyclehook/heatbeat/timeout''"

definition get_asg_termination_lifecycle_hook_timeout ::
  "env \<Rightarrow> string \<Rightarrow> world \<Rightarrow> world \<times> (error + py_value)" where
  "get_asg_termination_lifecycle_hook_timeout client asg w =
     (case get_parameter client (tick w) (parameter_name asg) of
        Inr v \<Rightarrow> (record_call (GetParameter (parameter_name asg)) None w, Inr (PyStr v))
      | Inl e \<Rightarrow>
          (let w1 = record_call (GetParameter (parameter_name asg)) (Some e) w
           in case e of
                ClientError m \<Rightarrow>
                  (logger ERROR ''Error whiling getting the {} lifecyclehook heatbeat timeout : {}''
                     [PyStr asg, PyStr m] w1, Inr (PyInt 300))
              | _ \<Rightarrow> (w1, Inl e)))"

text \<open>
  \<open>int(HeartbeatTimeout)\<close>: the identity on an integer; on a string, surrounding
  whitespace is dropped, then an optional sign and decimal digits are read, single
  underscores being allowed between digits. Anything else raises \<open>ValueError\<close>.
\<close>

definition is_space :: "char \<Rightarrow> bool" where
  "is_space c = (c \<in> set [CHR '' '', CHR 0x09, CHR 0x0A, CHR 0x0B, CHR 0x0C, CHR 0x0D])"

definition is_digit :: "char \<Rightarrow> bool" where
  "is_digit c = (48 \<le> (of_char c :: nat) \<and> (of_char c :: nat) \<le> 57)"

definition digit_value :: "char \<Rightarrow> nat" where
  "digit_value c = (of_char c :: nat) - 48"

fun digits_value :: "string \<Rightarrow> nat \<Rightarrow> nat option" where
  "digits_value [] acc = None"
| "digits_value [c] acc = (if is_digit c then Some (10 * acc + digit_value c) else None)"
| "digits_value (c # d # cs) acc =
     (if is_digit c
      then (if d = CHR ''_''
            then (case cs of [] \<Rightarrow> None | _ # _ \<Rightarrow> digits_value cs (10 * acc + digit_value c))
            else digits_value (d # cs) (10 * acc + digit_value c))
      else None)"

definition strip :: "string \<Rightarrow> string" where
  "strip s = rev (dropWhile is_space (rev (dropWhile is_space s)))"

definition int_of_string :: "string \<Rightarrow> int option" where
  "int_of_string s =
     (case strip s of
        [] \<Rightarrow> None
      | c # cs \<Rightarrow>
          if c = CHR ''-'' then map_option (\<lambda>n. - int n) (digits_value cs 0)
          else if c = CHR ''+'' then map_option int (digits_value cs 0)
          else map_option int (digits_value (c # cs) 0))"

fun py_int :: "py_value \<Rightarrow> int option" where
  "py_int (PyInt n) = Some n"
| "py_int (PyStr s) = int_of_string s"


section \<open>Request data\<close>

text \<open>
  The scheduler configuration as the engine reads it: the tag lists of the two
  transitions, each possibly \<open>None\<close>.
\<close>

record config =
  started_tags :: "tag list option"
  stopped_tags :: "tag list option"

text \<open>One value of the per-group scaling configuration \<open>asg_conf\<close> of \<open>start_instances\<close>.\<close>

record scaling =
  desired_capacity :: int
  min_size :: int

text \<open>How the body of one batch ends: it runs to its end, hits \<open>break\<close>, or raises.\<close>

datatype control = Continue | Break | Raise error

section \<open>Tag bookkeeping (lines 305-320, 325-340, 431-446, 451-466)\<close>

text \<open>
  The four tagging blocks of the source are one piece of code up to the names of the
  lists and of the warning. The inner loops stop at the first exception, which the
  enclosing \<open>except Exception\<close> then handles.
\<close>

fun delete_keys :: "env \<Rightarrow> string \<Rightarrow> string list \<Rightarrow> world \<Rightarrow> world \<times> error option" where
  "delete_keys client asg [] w = (w, None)"
| "delete_keys client asg (k # ks) w =
     (case delete_tags client (tick w) asg k of
        Some ex \<Rightarrow> (record_call (DeleteTags asg k) (Some ex) w, Some ex)
      | None \<Rightarrow> delete_keys client asg ks (record_call (DeleteTags asg k) None w))"

fun delete_loop :: "env \<Rightarrow> string list \<Rightarrow> string list \<Rightarrow> world \<Rightarrow> world \<times> error option" where
  "delete_loop client [] keys w = (w, None)"
| "delete_loop client (asg # rest) keys w =
     (case delete_keys client asg keys w of
        (w1, Some ex) \<Rightarrow> (w1, Some ex)
      | (w1, None) \<Rightarrow> delete_loop client rest keys w1)"

fun create_tags :: "env \<Rightarrow> string \<Rightarrow> tag list \<Rightarrow> world \<Rightarrow> world \<times> error option" where
  "create_tags client asg [] w = (w, None)"
| "create_tags client asg (k # ks) w =
     (case create_or_update_tags client (tick w) asg (fst k) (snd k) of
        Some ex \<Rightarrow> (record_call (CreateOrUpdateTags asg (fst k) (snd k) False) (Some ex) w, Some ex)
      | None \<Rightarrow>
          create_tags client asg ks (record_call (CreateOrUpdateTags asg (fst k) (snd k) False) None w))"

fun create_loop :: "env \<Rightarrow> string list \<Rightarrow> tag list \<Rightarrow> world \<Rightarrow> world \<times> error option" where
  "create_loop client [] tags w = (w, None)"
| "create_loop client (asg # rest) tags w =
     (case create_tags client asg tags w of
        (w1, Some ex) \<Rightarrow> (w1, Some ex)
      | (w1, None) \<Rightarrow> create_loop client rest tags w1)"

text \<open>
  The body of the \<open>try\<close>: the removal pass when there are keys to remove, then the
  create-or-update pass when there are tags to add. \<open>removed\<close> and \<open>added\<close> are the
  words \<open>start\<close> and \<open>stop\<close> of the two info lines.
\<close>

definition tag_passes ::
  "env \<Rightarrow> string \<Rightarrow> string \<Rightarrow> string list \<Rightarrow> string list \<Rightarrow> tag list \<Rightarrow> world
     \<Rightarrow> world \<times> error option" where
  "tag_passes client removed added names remove_keys add_tags w =
     (case (if remove_keys \<noteq> []
            then delete_loop client names remove_keys
                   (logger INFO INFO_REMOVING_KEYS
                      [PyStr removed, PyStr (join '','' (map (\<lambda>k. CHR 0x22 # k @ [CHR 0x22]) remove_keys)),
                       PyStr (join '','' names)] w)
            else (w, None)) of
        (w1, Some ex) \<Rightarrow> (w1, Some ex)
      | (w1, None) \<Rightarrow>
          (if length add_tags > 0
           then create_loop client names add_tags
                  (logger INFO INF_ADD_KEYS
                     [PyStr added, PyStr (str_of_tags add_tags), PyStr (join '','' names)] w1)
           else (w1, None)))"

text \<open>The \<open>try\<close> with its handler: an exception of either pass becomes a warning.\<close>

definition apply_transition_tags ::
  "env \<Rightarrow> string \<Rightarrow> string \<Rightarrow> string \<Rightarrow> string list \<Rightarrow> string list \<Rightarrow> tag list \<Rightarrow> world
     \<Rightarrow> world" where
  "apply_transition_tags client warn_template removed added names remove_keys add_tags w =
     (case tag_passes client removed added names remove_keys add_tags w of
        (w1, Some ex) \<Rightarrow>
          logger WARNING warn_template [PyStr (join '','' names), PyStr (str_of_error ex)] w1
      | (w1, None) \<Rightarrow> w1)"

text \<open>
  One \<open>if len(names) > 0:\<close> block: tag bookkeeping, then one yield per name with the
  reached state.
\<close>

definition tag_and_yield ::
  "env \<Rightarrow> string \<Rightarrow> string \<Rightarrow> string \<Rightarrow> string \<Rightarrow> string list \<Rightarrow> string list \<Rightarrow> tag list
     \<Rightarrow> world \<Rightarrow> world \<times> (string \<times> string) list" where
  "tag_and_yield client warn_template removed added reached names remove_keys add_tags w =
     (if length names > 0
      then (apply_transition_tags client warn_template removed added names remove_keys add_tags w,
            map (\<lambda>i. (i, reached)) names)
      else (w, []))"

section \<open>stop_instances (lines 216-343)\<close>

text \<open>Lines 236-242: the identifiers of the batch, split by the ECS flag.\<close>

definition plain_ids :: "asg_data list \<Rightarrow> string list" where
  "plain_ids asg_instance = map inst_id (filter (\<lambda>i. inst_asg_is_ecs i \<noteq> ''true'') asg_instance)"

definition ecs_ids :: "asg_data list \<Rightarrow> string list" where
  "ecs_ids asg_instance = map inst_id (filter (\<lambda>i. inst_asg_is_ecs i = ''true'') asg_instance)"

text \<open>
  Lines 250-256: the lifecycle-hook preparation of one ECS group, inside
  \<open>try ... except ClientError\<close>. The handler logs a \<open>ClientError\<close>; any other
  exception is not caught and leaves \<open>stop_instances\<close>.
\<close>

definition except_client_error :: "error \<Rightarrow> world \<Rightarrow> world \<times> error option" where
  "except_client_error e w =
     (case e of
        ClientError m \<Rightarrow> (logger ERROR ERR_HOOK_TIMEOUT [PyStr m] w, None)
      | _ \<Rightarrow> (w, Some e))"

definition prepare_for_stop :: "env \<Rightarrow> string \<Rightarrow> world \<Rightarrow> world \<times> error option" where
  "prepare_for_stop client asg w =
     (case get_asg_termination_lifecycle_hook_name client asg w of
        (w1, Inl e) \<Rightarrow> except_client_error e w1
      | (w1, Inr result) \<Rightarrow>
          (case result of
             [] \<Rightarrow> except_client_error IndexError w1
           | LifecycleHookName # _ \<Rightarrow>
               (case get_asg_termination_lifecycle_hook_timeout client asg w1 of
                  (w2, Inl e) \<Rightarrow> except_client_error e w2
                | (w2, Inr HeartbeatTimeout) \<Rightarrow>
                    (let w3 = logger INFO ''Displaying the LifecycleHook HeartbeatTimeout : {}''
                                [HeartbeatTimeout] w2
                     in case py_int HeartbeatTimeout of
                          None \<Rightarrow> except_client_error ValueError w3
                        | Some t \<Rightarrow>
                            (case put_lifecycle_hook client (tick w3) asg LifecycleHookName t of
                               Some e \<Rightarrow>
                                 except_client_error e
                                   (record_call (PutHook asg LifecycleHookName t) (Some e) w3)
                             | None \<Rightarrow>
                                 (record_call (PutHook asg LifecycleHookName t) None w3, None))))))"

text \<open>
  Lines 257-261 and 267-271: the scale-down of one group and the status query of its
  whole subset, inside \<open>try ... except Exception\<close>. \<open>stopped\<close> is the list the source
  overwrites with the names of the status rows.
\<close>

definition stop_group ::
  "env \<Rightarrow> string \<Rightarrow> string list \<Rightarrow> string list \<Rightarrow> world \<Rightarrow> world \<times> string list" where
  "stop_group client asg subset_ids stopped w =
     (case update_auto_scaling_group client (tick w) asg 0 0 of
        Some ex \<Rightarrow>
          (logger ERROR ERR_STOPPING_ASG_INSTANCES [PyStr (join_chars asg), PyStr (str_of_error ex)]
             (record_call (UpdateGroup asg 0 0) (Some ex) w), stopped)
      | None \<Rightarrow>
          (case get_asg_status client subset_ids (record_call (UpdateGroup asg 0 0) None w) of
             (w2, Inl ex) \<Rightarrow>
               (logger ERROR ERR_STOPPING_ASG_INSTANCES
                  [PyStr (join_chars asg), PyStr (str_of_error ex)] w2, stopped)
           | (w2, Inr status) \<Rightarrow> (w2, map fst status)))"

fun stop_ecs_loop ::
  "env \<Rightarrow> string list \<Rightarrow> string list \<Rightarrow> string list \<Rightarrow> world
     \<Rightarrow> world \<times> string list \<times> error option" where
  "stop_ecs_loop client asg_ecs_ids [] stopped w = (w, stopped, None)"
| "stop_ecs_loop client asg_ecs_ids (asg # rest) stopped w =
     (case prepare_for_stop client asg w of
        (w1, Some e) \<Rightarrow> (w1, stopped, Some e)
      | (w1, None) \<Rightarrow>
          (case stop_group client asg asg_ecs_ids stopped w1 of
             (w2, stopped') \<Rightarrow> stop_ecs_loop client asg_ecs_ids rest stopped' w2))"

fun stop_plain_loop ::
  "env \<Rightarrow> string list \<Rightarrow> string list \<Rightarrow> string list \<Rightarrow> world \<Rightarrow> world \<times> string list" where
  "stop_plain_loop client asg_ids [] stopped w = (w, stopped)"
| "stop_plain_loop client asg_ids (asg # rest) stopped w =
     (case stop_group client asg asg_ids stopped w of
        (w1, stopped') \<Rightarrow> stop_plain_loop client asg_ids rest stopped' w1)"

text \<open>
  Lines 287-289 and 300-302: the warning loop. Its test \<open>i not in ...\<close> compares an
  instance object of the batch with the name strings of the list, which are never equal,
  so every element of the batch is warned about.
\<close>

fun warn_not_stopping :: "asg_data list \<Rightarrow> world \<Rightarrow> world" where
  "warn_not_stopping [] w = w"
| "warn_not_stopping (i # rest) w =
     warn_not_stopping rest (logger WARNING WARNING_ASG_INSTANCE_NOT_STOPPING [PyStr (inst_id i)] w)"

text \<open>
  Lines 279-290 and 292-303: one status re-check. It is an \<open>if\<close>, not a loop, and its
  two \<open>break\<close> statements leave the enclosing loop over the batches. The status query is
  outside any \<open>try\<close>.
\<close>

definition recheck_stop ::
  "env \<Rightarrow> asg_data list \<Rightarrow> string list \<Rightarrow> string list \<Rightarrow> nat \<Rightarrow> world
     \<Rightarrow> world \<times> string list \<times> nat \<times> control" where
  "recheck_stop client asg_instance subset_ids stopped get_status_count w =
     (if length stopped < length subset_ids
      then (case get_asg_status client subset_ids (record_call (Sleep 5) None w) of
              (w1, Inl e) \<Rightarrow> (w1, stopped, get_status_count, Raise e)
            | (w1, Inr status) \<Rightarrow>
                (let stopped' = map fst status
                 in if length stopped' = length asg_instance
                    then (w1, stopped', get_status_count, Break)
                    else (let count' = get_status_count + 1
                          in if count' > 3
                             then (warn_not_stopping asg_instance w1, stopped', count', Break)
                             else (w1, stopped', count', Continue))))
      else (w, stopped, get_status_count, Continue))"

text \<open>
  Lines 236-303: everything a batch does before tagging. The result holds the two lists
  \<open>asg_instances_ecs_stopped\<close> and \<open>asg_instances_stopped\<close>, the value of
  \<open>get_status_count\<close>, and how the part ended.
\<close>

definition stop_mutate ::
  "env \<Rightarrow> asg_data list \<Rightarrow> world \<Rightarrow> world \<times> string list \<times> string list \<times> error option" where
  "stop_mutate client asg_instance w =
     (let asg_ids = plain_ids asg_instance;
          asg_ecs_ids = ecs_ids asg_instance;
          w0 = logger INFO ''asg_ecs_ids : {}'' [PyStr (join '','' asg_ecs_ids)]
                 (logger INFO ''asg_ids : {}'' [PyStr (join '','' asg_ids)] w)
      in case (if length asg_ecs_ids \<noteq> 0
               then stop_ecs_loop client asg_ecs_ids asg_ecs_ids [] w0
               else (logger INFO ''No affected ECS found...'' [] w0, [], None)) of
           (w1, ecs_stopped, Some e) \<Rightarrow> (w1, ecs_stopped, [], Some e)
         | (w1, ecs_stopped, None) \<Rightarrow>
             (case (if length asg_ids \<noteq> 0
                    then stop_plain_loop client asg_ids asg_ids [] w1
                    else (logger INFO ''No affected ASG found...'' [] w1, [])) of
                (w2, stopped) \<Rightarrow> (w2, ecs_stopped, stopped, None)))"

definition stop_converge ::
  "env \<Rightarrow> asg_data list \<Rightarrow> string list \<Rightarrow> string list \<Rightarrow> world
     \<Rightarrow> world \<times> string list \<times> string list \<times> nat \<times> control" where
  "stop_converge client asg_instance ecs_stopped stopped w =
     (case recheck_stop client asg_instance (ecs_ids asg_instance) ecs_stopped 0 w of
        (w1, ecs_stopped', n1, Continue) \<Rightarrow>
          (case recheck_stop client asg_instance (plain_ids asg_instance) stopped n1 w1 of
             (w2, stopped', n2, c) \<Rightarrow> (w2, ecs_stopped', stopped', n2, c))
      | (w1, ecs_stopped', n1, c) \<Rightarrow> (w1, ecs_stopped', stopped, n1, c))"

text \<open>Lines 305-343: tagging and yields, ECS names first.\<close>

definition stop_emit ::
  "env \<Rightarrow> string list \<Rightarrow> tag list \<Rightarrow> string list \<Rightarrow> string list \<Rightarrow> world
     \<Rightarrow> world \<times> (string \<times> string) list" where
  "stop_emit client start_tags_keys stop_tags ecs_stopped stopped w =
     (case tag_and_yield client WARN_STOPPED_ASG_INSTANCES_TAGGING ''start'' ''stop'' STATE_STOPPED
             ecs_stopped start_tags_keys stop_tags w of
        (w1, out1) \<Rightarrow>
          (case tag_and_yield client WARN_STOPPED_ASG_INSTANCES_TAGGING ''start'' ''stop''
                  STATE_STOPPED stopped start_tags_keys stop_tags w1 of
             (w2, out2) \<Rightarrow> (w2, out1 @ out2)))"

text \<open>The body of the loop over the batches: what it yields and how it ends.\<close>

definition stop_batch ::
  "env \<Rightarrow> string list \<Rightarrow> tag list \<Rightarrow> asg_data list \<Rightarrow> world
     \<Rightarrow> world \<times> (string \<times> string) list \<times> control" where
  "stop_batch client start_tags_keys stop_tags asg_instance w =
     (case stop_mutate client asg_instance w of
        (w1, ecs_stopped, stopped, Some e) \<Rightarrow> (w1, [], Raise e)
      | (w1, ecs_stopped, stopped, None) \<Rightarrow>
          (case stop_converge client asg_instance ecs_stopped stopped w1 of
             (w2, ecs_stopped', stopped', n, Continue) \<Rightarrow>
               (case stop_emit client start_tags_keys stop_tags ecs_stopped' stopped' w2 of
                  (w3, out) \<Rightarrow> (w3, out, Continue))
           | (w2, ecs_stopped', stopped', n, c) \<Rightarrow> (w2, [], c)))"

text \<open>
  The loop over the batches. The generator's yields are collected in order; a
  \<open>break\<close> ends the generator normally, an exception ends it with the exception, and
  what was yielded before stays yielded.
\<close>

fun stop_batches ::
  "env \<Rightarrow> string list \<Rightarrow> tag list \<Rightarrow> asg_data list list \<Rightarrow> world
     \<Rightarrow> world \<times> (string \<times> string) list \<times> error option" where
  "stop_batches client start_tags_keys stop_tags [] w = (w, [], None)"
| "stop_batches client start_tags_keys stop_tags (asg_instance # rest) w =
     (case stop_batch client start_tags_keys stop_tags asg_instance w of
        (w1, out, Continue) \<Rightarrow>
          (case stop_batches client start_tags_keys stop_tags rest w1 of
             (w2, out', r) \<Rightarrow> (w2, out @ out', r))
      | (w1, out, Break) \<Rightarrow> (w1, out, None)
      | (w1, out, Raise e) \<Rightarrow> (w1, out, Some e))"

text \<open>
  Lines 222-235. \<open>stop_tags\<close> defaults to the empty list; iterating a \<open>started_tags\<close>
  that is \<open>None\<close> raises \<open>TypeError\<close>. \<open>start_tags_keys\<close> are the keys of the start
  tags that are not keys of the stop tags.
\<close>

definition removal_keys :: "tag list \<Rightarrow> tag list \<Rightarrow> string list" where
  "removal_keys opposite_tags own_tags =
     map fst (filter (\<lambda>t. fst t \<notin> set (map fst own_tags)) opposite_tags)"

definition stop_instances ::
  "env \<Rightarrow> config \<Rightarrow> asg_data list \<Rightarrow> world \<Rightarrow> world \<times> (string \<times> string) list \<times> error option" where
  "stop_instances client cfg stopped_asg_instances w =
     (let stop_tags = (case stopped_tags cfg of None \<Rightarrow> [] | Some ts \<Rightarrow> ts)
      in case started_tags cfg of
           None \<Rightarrow> (w, [], Some TypeError)
         | Some sts \<Rightarrow>
             stop_batches client (removal_keys sts stop_tags) stop_tags
               (instance_batches stopped_asg_instances STOP_BATCH_SIZE) w)"

section \<open>start_instances (lines 346-469)\<close>

text \<open>
  Lines 379-383: the hook preparation of one ECS group on the start path, with the fixed
  timeout 3600, inside \<open>try ... except ClientError\<close>.
\<close>

definition prepare_for_start :: "env \<Rightarrow> string \<Rightarrow> world \<Rightarrow> world \<times> error option" where
  "prepare_for_start client asg w =
     (case get_asg_termination_lifecycle_hook_name client asg w of
        (w1, Inl e) \<Rightarrow> except_client_error e w1
      | (w1, Inr result) \<Rightarrow>
          (case result of
             [] \<Rightarrow> except_client_error IndexError w1
           | LifecycleHookName # _ \<Rightarrow>
               (case put_lifecycle_hook client (tick w1) asg LifecycleHookName 3600 of
                  Some e \<Rightarrow>
                    except_client_error e
                      (record_call (PutHook asg LifecycleHookName 3600) (Some e) w1)
                | None \<Rightarrow> (record_call (PutHook asg LifecycleHookName 3600) None w1, None))))"

text \<open>
  Lines 385-388 and 397-400: \<open>for key, value in asg_conf.items(): if key == asg: ...\<close>.
  The items of the dict \<open>asg_conf\<close> are a list of pairs. An item whose key is the group
  sends the scale-up with the item's values and then overwrites the list of started names
  with the names of a status query of the whole subset; any other item does nothing. An
  exception ends the loop.
\<close>

fun start_items ::
  "env \<Rightarrow> (string \<times> scaling) list \<Rightarrow> string \<Rightarrow> string list \<Rightarrow> string list \<Rightarrow> world
     \<Rightarrow> world \<times> string list \<times> error option" where
  "start_items client [] asg subset_ids started w = (w, started, None)"
| "start_items client (item # rest) asg subset_ids started w =
     (if fst item = asg
      then (case update_auto_scaling_group client (tick w) asg
                   (desired_capacity (snd item)) (min_size (snd item)) of
              Some ex \<Rightarrow>
                (record_call (UpdateGroup asg (desired_capacity (snd item)) (min_size (snd item)))
                   (Some ex) w, started, Some ex)
            | None \<Rightarrow>
                (case get_asg_status client subset_ids
                        (record_call
                           (UpdateGroup asg (desired_capacity (snd item)) (min_size (snd item)))
                           None w) of
                   (w2, Inl ex) \<Rightarrow> (w2, started, Some ex)
                 | (w2, Inr status) \<Rightarrow>
                     start_items client rest asg subset_ids (map fst status) w2))
      else start_items client rest asg subset_ids started w)"

text \<open>
  Lines 384-390 and 396-402: the loop over the items inside
  \<open>try ... except Exception\<close>, whose handler logs the error.
\<close>

definition start_group ::
  "env \<Rightarrow> (string \<times> scaling) list \<Rightarrow> string \<Rightarrow> string list \<Rightarrow> string list \<Rightarrow> world
     \<Rightarrow> world \<times> string list" where
  "start_group client asg_conf asg subset_ids started w =
     (case start_items client asg_conf asg subset_ids started w of
        (w1, started', Some ex) \<Rightarrow>
          (logger ERROR ERR_STARTING_ASG_INSTANCES
             [PyStr (join_chars asg), PyStr (str_of_error ex)] w1, started')
      | (w1, started', None) \<Rightarrow> (w1, started'))"

fun start_ecs_loop ::
  "env \<Rightarrow> (string \<times> scaling) list \<Rightarrow> string list \<Rightarrow> string list \<Rightarrow> string list \<Rightarrow> world
     \<Rightarrow> world \<times> string list \<times> error option" where
  "start_ecs_loop client asg_conf asg_ecs_ids [] started w = (w, started, None)"
| "start_ecs_loop client asg_conf asg_ecs_ids (asg # rest) started w =
     (case prepare_for_start client asg w of
        (w1, Some e) \<Rightarrow> (w1, started, Some e)
      | (w1, None) \<Rightarrow>
          (case start_group client asg_conf asg asg_ecs_ids started w1 of
             (w2, started') \<Rightarrow> start_ecs_loop client asg_conf asg_ecs_ids rest started' w2))"

fun start_plain_loop ::
  "env \<Rightarrow> (string \<times> scaling) list \<Rightarrow> string list \<Rightarrow> string list \<Rightarrow> string list \<Rightarrow> world
     \<Rightarrow> world \<times> string list" where
  "start_plain_loop client asg_conf asg_ids [] started w = (w, started)"
| "start_plain_loop client asg_conf asg_ids (asg # rest) started w =
     (case start_group client asg_conf asg asg_ids started w of
        (w1, started') \<Rightarrow> start_plain_loop client asg_conf asg_ids rest started' w1)"

text \<open>
  Lines 414-416 and 426-428: the warning loop of the start path runs over the
  identifiers of the subset and tests membership among the started names.
\<close>

fun warn_not_starting :: "string list \<Rightarrow> string list \<Rightarrow> world \<Rightarrow> world" where
  "warn_not_starting [] started w = w"
| "warn_not_starting (i # rest) started w =
     warn_not_starting rest started
       (if i \<notin> set started
        then logger WARNING WARNING_ASG_INSTANCE_NOT_STARTING [PyStr i] w else w)"

text \<open>
  Lines 407-417 and 419-429: the start path sleeps but does not query the status again,
  so the test for \<open>break\<close> that follows the sleep reads the list it has just found too
  short.
\<close>

definition recheck_start ::
  "string list \<Rightarrow> string list \<Rightarrow> nat \<Rightarrow> world \<Rightarrow> world \<times> nat \<times> control" where
  "recheck_start subset_ids started get_status_count w =
     (if length started < length subset_ids
      then (let w1 = record_call (Sleep 5) None w
            in if length started = length subset_ids
               then (w1, get_status_count, Break)
               else (let count' = get_status_count + 1
                     in if count' > 3
                        then (warn_not_starting subset_ids started w1, count', Break)
                        else (w1, count', Continue)))
      else (w, get_status_count, Continue))"

definition start_mutate ::
  "env \<Rightarrow> (string \<times> scaling) list \<Rightarrow> asg_data list \<Rightarrow> world
     \<Rightarrow> world \<times> string list \<times> string list \<times> error option" where
  "start_mutate client asg_conf asg_instance w =
     (let asg_ids = plain_ids asg_instance;
          asg_ecs_ids = ecs_ids asg_instance
      in case (if length asg_ecs_ids \<noteq> 0
               then start_ecs_loop client asg_conf asg_ecs_ids asg_ecs_ids [] w
               else (logger INFO ''No affected ECS found...'' [] w, [], None)) of
           (w1, ecs_started, Some e) \<Rightarrow> (w1, ecs_started, [], Some e)
         | (w1, ecs_started, None) \<Rightarrow>
             (case (if length asg_ids \<noteq> 0
                    then start_plain_loop client asg_conf asg_ids asg_ids [] w1
                    else (logger INFO ''No affected ASG found...'' [] w1, [])) of
                (w2, started) \<Rightarrow> (w2, ecs_started, started, None)))"

definition start_converge ::
  "asg_data list \<Rightarrow> string list \<Rightarrow> string list \<Rightarrow> world \<Rightarrow> world \<times> nat \<times> control" where
  "start_converge asg_instance ecs_started started w =
     (case recheck_start (ecs_ids asg_instance) ecs_started 0 w of
        (w1, n1, Continue) \<Rightarrow> recheck_start (plain_ids asg_instance) started n1 w1
      | (w1, n1, c) \<Rightarrow> (w1, n1, c))"

text \<open>Lines 431-469: tagging and yields, ECS names first.\<close>

definition start_emit ::
  "env \<Rightarrow> string list \<Rightarrow> tag list \<Rightarrow> string list \<Rightarrow> string list \<Rightarrow> world
     \<Rightarrow> world \<times> (string \<times> string) list" where
  "start_emit client stop_tags_keys start_tags ecs_started started w =
     (case tag_and_yield client WARN_STARTED_ASG_INSTANCES_TAGGING ''stop'' ''start'' STATE_RUNNING
             ecs_started stop_tags_keys start_tags w of
        (w1, out1) \<Rightarrow>
          (case tag_and_yield client WARN_STARTED_ASG_INSTANCES_TAGGING ''stop'' ''start''
                  STATE_RUNNING started stop_tags_keys start_tags w1 of
             (w2, out2) \<Rightarrow> (w2, out1 @ out2)))"

definition start_batch ::
  "env \<Rightarrow> (string \<times> scaling) list \<Rightarrow> string list \<Rightarrow> tag list \<Rightarrow> asg_data list \<Rightarrow> world
     \<Rightarrow> world \<times> (string \<times> string) list \<times> control" where
  "start_batch client asg_conf stop_tags_keys start_tags asg_instance w =
     (case start_mutate client asg_conf asg_instance w of
        (w1, ecs_started, started, Some e) \<Rightarrow> (w1, [], Raise e)
      | (w1, ecs_started, started, None) \<Rightarrow>
          (case start_converge asg_instance ecs_started started w1 of
             (w2, n, Continue) \<Rightarrow>
               (case start_emit client stop_tags_keys start_tags ecs_started started w2 of
                  (w3, out) \<Rightarrow> (w3, out, Continue))
           | (w2, n, c) \<Rightarrow> (w2, [], c)))"

fun start_batches ::
  "env \<Rightarrow> (string \<times> scaling) list \<Rightarrow> string list \<Rightarrow> tag list \<Rightarrow> asg_data list list \<Rightarrow> world
     \<Rightarrow> world \<times> (string \<times> string) list \<times> error option" where
  "start_batches client asg_conf stop_tags_keys start_tags [] w = (w, [], None)"
| "start_batches client asg_conf stop_tags_keys start_tags (asg_instance # rest) w =
     (case start_batch client asg_conf stop_tags_keys start_tags asg_instance w of
        (w1, out, Continue) \<Rightarrow>
          (case start_batches client asg_conf stop_tags_keys start_tags rest w1 of
             (w2, out', r) \<Rightarrow> (w2, out @ out', r))
      | (w1, out, Break) \<Rightarrow> (w1, out, None)
      | (w1, out, Raise e) \<Rightarrow> (w1, out, Some e))"

text \<open>
  Lines 351-365, symmetric to the stop path: \<open>start_tags\<close> defaults to the empty list,
  a \<open>stopped_tags\<close> that is \<open>None\<close> raises \<open>TypeError\<close>.
\<close>

definition start_instances ::
  "env \<Rightarrow> config \<Rightarrow> (string \<times> scaling) list \<Rightarrow> asg_data list \<Rightarrow> world
     \<Rightarrow> world \<times> (string \<times> string) list \<times> error option" where
  "start_instances client cfg asg_conf asg_instances_to_start w =
     (let start_tags = (case started_tags cfg of None \<Rightarrow> [] | Some ts \<Rightarrow> ts)
      in case stopped_tags cfg of
           None \<Rightarrow> (w, [], Some TypeError)
         | Some sts \<Rightarrow>
             start_batches client asg_conf (removal_keys sts start_tags) start_tags
               (instance_batches asg_instances_to_start START_BATCH_SIZE) w)"

section \<open>The control plane's tag store\<close>

text \<open>
  What the tag calls do to the tags of the groups is the control plane's business; to
  speak of a group's final tags, the calls of a trace are replayed on a tag store. A
  store maps a group and a key to the value and the propagate-at-launch flag. A call that
  raised changes nothing; \<open>delete_tags\<close> removes the key; \<open>create_or_update_tags\<close> sets
  it.
\<close>

type_synonym tag_store = "string \<Rightarrow> (string \<rightharpoonup> string \<times> bool)"

fun apply_call :: "tag_store \<Rightarrow> api_call \<times> error option \<Rightarrow> tag_store" where
  "apply_call ts (DeleteTags asg k, None) = ts(asg := (ts asg)(k := None))"
| "apply_call ts (CreateOrUpdateTags asg k v p, None) = ts(asg := (ts asg)(k \<mapsto> (v, p)))"
| "apply_call ts _ = ts"

definition replay :: "(api_call \<times> error option) list \<Rightarrow> tag_store \<Rightarrow> tag_store" where
  "replay tr ts = foldl apply_call ts tr"

text \<open>The tags of all groups once the calls of a world's trace have been applied.\<close>

definition tags_after :: "tag_store \<Rightarrow> world \<Rightarrow> tag_store" where
  "tags_after ts w = replay (trace w) ts"

text \<open>A create-or-update call that asks for propagation at launch.\<close>

fun propagating :: "api_call \<times> error option \<Rightarrow> bool" where
  "propagating (CreateOrUpdateTags asg k v p, r) = p"
| "propagating _ = False"

text \<open>
  The tags of one group carry a transition when every key of the added tags holds the
  value of its last entry in that list, with propagate-at-launch \<open>False\<close>, and every
  removed key that is not among them is absent.
\<close>

definition carries :: "tag list \<Rightarrow> string list \<Rightarrow> (string \<rightharpoonup> string \<times> bool) \<Rightarrow> bool" where
  "carries add_tags remove_keys m =
     ((\<forall>k v. map_of (rev add_tags) k = Some v \<longrightarrow> m k = Some (v, False))
      \<and> (\<forall>k \<in> set remove_keys. map_of (rev add_tags) k = None \<longrightarrow> m k = None))"

section \<open>Reading a trace\<close>

text \<open>
  The calls of the engine fall into three kinds: queries and other calls that change
  neither scaling nor tags (\<open>is_poll\<close>), scaling mutations, and tag calls. The scale-down
  of the stop path always sends \<open>(0, 0)\<close>; the scale-up of the start path sends the
  values that \<open>asg_conf\<close> holds for the group; a create-or-update call of either path
  sends propagate-at-launch \<open>False\<close>.
\<close>

fun is_poll :: "api_call \<Rightarrow> bool" where
  "is_poll (DescribeGroups ids) = True"
| "is_poll (DescribeHooks asg) = True"
| "is_poll (GetParameter p) = True"
| "is_poll (PutHook asg h t) = True"
| "is_poll (Sleep n) = True"
| "is_poll (UpdateGroup asg d m) = False"
| "is_poll (DeleteTags asg k) = False"
| "is_poll (CreateOrUpdateTags asg k v p) = False"

fun is_stop_update :: "api_call \<Rightarrow> bool" where
  "is_stop_update (UpdateGroup asg d m) = (d = 0 \<and> m = 0)"
| "is_stop_update _ = False"

fun is_start_update :: "(string \<times> scaling) list \<Rightarrow> api_call \<Rightarrow> bool" where
  "is_start_update asg_conf (UpdateGroup asg d m) =
     list_ex (\<lambda>item. fst item = asg \<and> d = desired_capacity (snd item) \<and> m = min_size (snd item))
       asg_conf"
| "is_start_update asg_conf _ = False"

fun is_tag_call :: "api_call \<Rightarrow> bool" where
  "is_tag_call (DeleteTags asg k) = True"
| "is_tag_call (CreateOrUpdateTags asg k v p) = (\<not> p)"
| "is_tag_call _ = False"

text \<open>
  A property of a trace is read off it by folding a step function over its calls.
  \<open>ignores step K\<close> says that calls of kind \<open>K\<close> do not move the fold.
\<close>

definition ignores :: "('s \<Rightarrow> api_call \<times> error option \<Rightarrow> 's) \<Rightarrow> (api_call \<Rightarrow> bool) \<Rightarrow> bool" where
  "ignores step K = (\<forall>s c r. K c \<longrightarrow> step s (c, r) = s)"

definition observe :: "('s \<Rightarrow> api_call \<times> error option \<Rightarrow> 's) \<Rightarrow> 's \<Rightarrow> world \<Rightarrow> 's" where
  "observe step s w = foldl step s (trace w)"

text \<open>
  The scaling of one group as the control plane holds it: a scaling mutation that did
  not raise sets the desired capacity and the minimum size of the group it names.
  \<open>updates_of g\<close> picks the scaling mutations sent for \<open>g\<close>.
\<close>

fun scaling_step :: "string \<Rightarrow> int \<times> int \<Rightarrow> api_call \<times> error option \<Rightarrow> int \<times> int" where
  "scaling_step g s (UpdateGroup asg d m, None) = (if asg = g then (d, m) else s)"
| "scaling_step g s _ = s"

definition scaling_after :: "string \<Rightarrow> int \<times> int \<Rightarrow> world \<Rightarrow> int \<times> int" where
  "scaling_after g s w = foldl (scaling_step g) s (trace w)"

fun updates_of :: "string \<Rightarrow> api_call \<times> error option \<Rightarrow> bool" where
  "updates_of g (UpdateGroup asg d m, r) = (asg = g)"
| "updates_of g _ = False"

text \<open>
  The exceptions recorded in a trace, in order; the calls that a step has added to the
  trace of the world it started from; an optional exception as a list; and the shape of
  what a tagging pass returns: the trace has grown by a segment whose only failure, if
  any, is the exception returned.
\<close>

definition failures :: "(api_call \<times> error option) list \<Rightarrow> error list" where
  "failures tr = List.map_filter snd tr"

definition new_calls :: "world \<Rightarrow> world \<Rightarrow> (api_call \<times> error option) list" where
  "new_calls w w' = drop (length (trace w)) (trace w')"

fun opt_list :: "'a option \<Rightarrow> 'a list" where
  "opt_list None = []" | "opt_list (Some x) = [x]"

definition pass_result :: "world \<Rightarrow> world \<times> error option \<Rightarrow> bool" where
  "pass_result w res =
     (\<exists>seg. trace (fst res) = trace w @ seg \<and> failures seg = opt_list (snd res))"

section \<open>Scenarios\<close>

text \<open>
  Concrete inputs for the evaluations below. A group of a status response is given by
  its name and the lifecycle states of its instances; an instance of a batch is what
  discovery builds for a group that carries the scheduling tag \<open>Schedule\<close>.
\<close>

definition group :: "string \<Rightarrow> string list \<Rightarrow> aws_group" where
  "group name instances =
     \<lparr>GroupName = name, GroupDesiredCapacity = 0, GroupMinSize = 0,
      GroupInstances = instances, GroupTags = None\<rparr>"

definition plain_instance :: "string \<Rightarrow> asg_data" where
  "plain_instance name =
     select_instance_data
       \<lparr>AutoScalingGroupName = name, DesiredCapacity = 3, MinSize = 1, InstanceNumber = 3,
        Tags = Some [(''Schedule'', ''office-hours'')]\<rparr> ''Schedule''"

definition ecs_instance :: "string \<Rightarrow> asg_data" where
  "ecs_instance name =
     select_instance_data
       \<lparr>AutoScalingGroupName = name, DesiredCapacity = 3, MinSize = 1, InstanceNumber = 3,
        Tags = Some [(''Schedule'', ''office-hours''),
                     (''aws:cloudformation:logical-id'', ''ECSAutoScalingGroup'')]\<rparr> ''Schedule''"

definition no_tags :: config where
  "no_tags = \<lparr>started_tags = Some [], stopped_tags = Some []\<rparr>"

text \<open>
  An environment in which every call succeeds, every group asked about is reported with
  no instance in service, and every group has one termination hook.
\<close>

definition calm :: env where
  "calm =
     \<lparr>describe_auto_scaling_groups = (\<lambda>n ids. Inr (map (\<lambda>i. group i []) ids)),
      update_auto_scaling_group = (\<lambda>n asg d m. None),
      describe_lifecycle_hooks = (\<lambda>n asg. Inr [''LaunchHook'', ''TerminationHook'']),
      get_parameter = (\<lambda>n p. Inr ''120''),
      put_lifecycle_hook = (\<lambda>n asg h t. None),
      delete_tags = (\<lambda>n asg k. None),
      create_or_update_tags = (\<lambda>n asg k v. None)\<rparr>"

text \<open>
  The status lags: the queries that follow the mutations report only the first group
  asked about; the query after the sleep (the sixth call of a two-group batch) reports
  all of them, stopped.
\<close>

definition lagging :: env where
  "lagging = calm\<lparr>describe_auto_scaling_groups :=
      (\<lambda>n ids. if n < 4 then Inr (map (\<lambda>i. group i []) (take 1 ids))
                else Inr (map (\<lambda>i. group i []) ids))\<rparr>"

text \<open>The status never reports any group.\<close>

definition silent :: env where
  "silent = calm\<lparr>describe_auto_scaling_groups := (\<lambda>n ids. Inr [])\<rparr>"

text \<open>Every group asked about still has three instances in service.\<close>

definition busy :: env where
  "busy = calm\<lparr>describe_auto_scaling_groups :=
      (\<lambda>n ids. Inr (map (\<lambda>i. group i [''InService'', ''InService'', ''InService'']) ids))\<rparr>"

text \<open>The groups have a launch hook only.\<close>

definition hookless :: env where
  "hookless = calm\<lparr>describe_lifecycle_hooks := (\<lambda>n asg. Inr [''LaunchHook''])\<rparr>"

text \<open>A scaling configuration that knows group \<open>a\<close> only.\<close>

definition only_a :: "(string \<times> scaling) list" where
  "only_a = [(''a'', \<lparr>desired_capacity = 2, min_size = 1\<rparr>)]"

text \<open>
  Tag deletion is refused; and a configuration with a start tag whose key the stop tags
  share and one whose key they do not.
\<close>

definition denied :: env where
  "denied = calm\<lparr>delete_tags := (\<lambda>n asg k. Some (ClientError ''AccessDenied''))\<rparr>"

definition state_tags :: config where
  "state_tags =
     \<lparr>started_tags = Some [(''state'', ''on''), (''started-by'', ''scheduler'')],
      stopped_tags = Some [(''state'', ''off'')]\<rparr>"

text \<open>A tag store in which group \<open>a\<close> carries the two start tags.\<close>

definition tagged_on :: tag_store where
  "tagged_on =
     (\<lambda>g. if g = ''a''
          then [''state'' \<mapsto> (''on'', False), ''started-by'' \<mapsto> (''scheduler'', False)]
          else Map.empty)"

lemmas scenario_defs =
  group_def plain_instance_def ecs_instance_def no_tags_def calm_def lagging_def silent_def
  busy_def hookless_def only_a_def denied_def state_tags_def

lemmas engine_defs =
  select_instance_data_def get_tags_def Let_def instance_batches_def STOP_BATCH_SIZE_def
  START_BATCH_SIZE_def ASG_STATE_RUNNING_def ASG_STATE_TERMINATED_def STATE_STOPPED_def
  STATE_RUNNING_def empty_world_def tick_def record_call_def logger_def
  get_asg_status_def asg_status_of_def jmes_status_def in_service_count_def
  get_asg_termination_lifecycle_hook_name_def get_asg_termination_lifecycle_hook_timeout_def
  parameter_name_def int_of_string_def strip_def is_space_def is_digit_def digit_value_def
  tag_passes_def apply_transition_tags_def tag_and_yield_def
  plain_ids_def ecs_ids_def except_client_error_def prepare_for_stop_def stop_group_def
  recheck_stop_def stop_mutate_def stop_converge_def stop_emit_def stop_batch_def
  removal_keys_def stop_instances_def
  prepare_for_start_def start_group_def recheck_start_def start_mutate_def start_converge_def
  start_emit_def start_batch_def start_instances_def

section \<open>Batching: properties\<close>

lemma batches_loop_concat:
  "concat (instance_batches_loop xs sz buf) = buf @ xs"
  by (induction xs arbitrary: buf) (auto simp: Let_def)

lemma batches_loop_bounds:
  "int (length buf) < sz \<Longrightarrow> b \<in> set (instance_batches_loop xs sz buf)
     \<Longrightarrow> b \<noteq> [] \<and> int (length b) \<le> sz"
proof (induction xs arbitrary: buf)
  case Nil
  then show ?case by (auto split: if_splits)
next
  case (Cons x xs)
  show ?case
  proof (cases "int (length (buf @ [x])) = sz")
    case True
    with Cons.prems have "b = buf @ [x] \<or> b \<in> set (instance_batches_loop xs sz [])"
      by (simp add: Let_def)
    moreover have "int (length ([]::'a list)) < sz" using True by simp
    ultimately show ?thesis using Cons.IH [of "[]"] True by auto
  next
    case False
    with Cons.prems have "b \<in> set (instance_batches_loop xs sz (buf @ [x]))"
      and "int (length (buf @ [x])) < sz"
      by (auto simp: Let_def)
    then show ?thesis using Cons.IH [of "buf @ [x]"] by blast
  qed
qed

lemma batches_loop_full:
  "int (length buf) < sz \<Longrightarrow> b \<in> set (butlast (instance_batches_loop xs sz buf))
     \<Longrightarrow> int (length b) = sz"
proof (induction xs arbitrary: buf)
  case Nil
  then show ?case by (auto split: if_splits)
next
  case (Cons x xs)
  show ?case
  proof (cases "int (length (buf @ [x])) = sz")
    case True
    have lt: "int (length ([]::'a list)) < sz" using True by simp
    from Cons.prems True
    have "b \<in> set (butlast ((buf @ [x]) # instance_batches_loop xs sz []))"
      by (simp add: Let_def)
    then have "b = buf @ [x] \<or> b \<in> set (butlast (instance_batches_loop xs sz []))"
      by (auto split: if_splits)
    then show ?thesis using Cons.IH [OF lt] True by auto
  next
    case False
    with Cons.prems have "b \<in> set (butlast (instance_batches_loop xs sz (buf @ [x])))"
      and "int (length (buf @ [x])) < sz"
      by (auto simp: Let_def)
    then show ?thesis using Cons.IH [of "buf @ [x]"] by blast
  qed
qed

text \<open>
  C8. For every input and every positive size, the batches concatenate to the input in
  order, every batch is non-empty and at most \<open>sz\<close> long, every batch but the last is
  exactly \<open>sz\<close> long, the empty input yields no batch, and seven elements with size 5
  yield a batch of five followed by a batch of two.
\<close>

theorem instance_batches_partition:
  fixes xs :: "'a list" and g1 g2 g3 g4 g5 g6 g7 :: 'a
  assumes "0 < sz"
  shows "concat (instance_batches xs sz) = xs
       \<and> (\<forall>b \<in> set (instance_batches xs sz). b \<noteq> [] \<and> int (length b) \<le> sz)
       \<and> (\<forall>b \<in> set (butlast (instance_batches xs sz)). int (length b) = sz)
       \<and> instance_batches ([]::'a list) sz = []
       \<and> instance_batches [g1, g2, g3, g4, g5, g6, g7] 5 = [[g1, g2, g3, g4, g5], [g6, g7]]"
proof -
  have lt: "int (length ([]::'a list)) < sz" using assms by simp
  have c: "concat (instance_batches xs sz) = xs"
    by (simp add: instance_batches_def batches_loop_concat)
  have b: "\<forall>b \<in> set (instance_batches xs sz). b \<noteq> [] \<and> int (length b) \<le> sz"
    using batches_loop_bounds [OF lt, of _ xs] by (simp add: instance_batches_def)
  have f: "\<forall>b \<in> set (butlast (instance_batches xs sz)). int (length b) = sz"
    using batches_loop_full [OF lt, of _ xs] by (simp add: instance_batches_def)
  have e: "instance_batches ([]::'a list) sz = []"
    by (simp add: instance_batches_def)
  have s: "instance_batches [g1, g2, g3, g4, g5, g6, g7] 5 = [[g1, g2, g3, g4, g5], [g6, g7]]"
    by (simp add: instance_batches_def Let_def)
  from c b f e s show ?thesis by blast
qed

theorem instance_batches_partition_witness:
  "(0::int) < 2
   \<and> concat (instance_batches [1, 2, 3 :: nat] 2) = [1, 2, 3]
   \<and> instance_batches [1, 2, 3 :: nat] 2 = [[1, 2], [3]]
   \<and> list_all (\<lambda>b. b \<noteq> [] \<and> int (length b) \<le> 2) (instance_batches [1, 2, 3 :: nat] 2)
   \<and> list_all (\<lambda>b. int (length b) = 2) (butlast (instance_batches [1, 2, 3 :: nat] 2))"
proof -
  have h: "(0::int) < 2" by simp
  have v: "instance_batches [1, 2, 3 :: nat] 2 = [[1, 2], [3]]"
    by (simp add: instance_batches_def Let_def)
  show ?thesis
    using instance_batches_partition [OF h, of "[1, 2, 3 :: nat]"] h v by simp
qed

section \<open>State classification: properties\<close>

lemma select_instance_data_state:
  "inst_state (select_instance_data asg tagname) =
     (if InstanceNumber asg = 0 then ''stopped'' else ''running'')"
  by (simp add: select_instance_data_def Let_def ASG_STATE_TERMINATED_def ASG_STATE_RUNNING_def)

lemma select_instance_data_id:
  "inst_id (select_instance_data asg tagname) = AutoScalingGroupName asg"
  by (simp add: select_instance_data_def Let_def)

text \<open>
  C7. The classifier labels a group \<open>stopped\<close> exactly when its in-service count is 0
  and \<open>running\<close> exactly when the count is positive, so every record it builds carries
  one of the two schedulable states and passes \<open>is_in_schedulable_state\<close>. The same
  holds for the row projected from any raw group of a response.
\<close>

theorem classifier_state_iff_count:
  "(inst_state (select_instance_data asg tagname) = ASG_STATE_TERMINATED) = (InstanceNumber asg = 0)
   \<and> (inst_state (select_instance_data asg tagname) = ASG_STATE_RUNNING) = (0 < InstanceNumber asg)
   \<and> inst_state (select_instance_data asg tagname) \<in> {''running'', ''stopped''}
   \<and> is_in_schedulable_state (select_instance_data asg tagname)
   \<and> (inst_state (select_instance_data (jmes_row g) tagname) = ''stopped'')
       = (in_service_count g = 0)
   \<and> (inst_state (select_instance_data (jmes_row g) tagname) = ''running'')
       = (0 < in_service_count g)"
  by (simp add: select_instance_data_state is_in_schedulable_state_def
      ASG_SCHEDULABLE_STATES_def ASG_STATE_TERMINATED_def ASG_STATE_RUNNING_def jmes_row_def)

text \<open>
  C10. The status poll and discovery classify alike: on any response, \<open>get_asg_status\<close>
  returns for each group the identifier and the state that \<open>_select_instance_data\<close>
  assigns to the row projected from the same group, and that state is \<open>stopped\<close>
  exactly when the in-service count is 0 and \<open>running\<close> otherwise.
\<close>

theorem status_agrees_with_discovery:
  "asg_status_of resp =
     map (\<lambda>g. (inst_id (select_instance_data (jmes_row g) tagname),
               inst_state (select_instance_data (jmes_row g) tagname))) resp
   \<and> asg_status_of resp =
     map (\<lambda>g. (GroupName g, if in_service_count g = 0 then ''stopped'' else ''running'')) resp"
  by (simp add: asg_status_of_def jmes_status_def select_instance_data_state
      select_instance_data_id jmes_row_def)

section \<open>stop_instances on the scenarios\<close>

text \<open>
  C1. Two plain groups are stopped; the status queries after the mutations report one of
  them, the single re-check after the sleep reports both as stopped. The re-check then
  finds as many names as the batch has members and executes \<open>break\<close>, which leaves the
  loop over the batches: nothing is yielded and no exception is raised.
\<close>

theorem stop_recheck_success_emits_nothing:
  "stop_instances lagging no_tags [plain_instance ''a'', plain_instance ''b''] empty_world =
     (\<lparr>trace = [(UpdateGroup ''a'' 0 0, None), (DescribeGroups [''a'', ''b''], None),
                (UpdateGroup ''b'' 0 0, None), (DescribeGroups [''a'', ''b''], None),
                (Sleep 5, None), (DescribeGroups [''a'', ''b''], None)],
       logs = [Log INFO ''asg_ids : {}'' [PyStr ''a,b''],
               Log INFO ''asg_ecs_ids : {}'' [PyStr []],
               Log INFO ''No affected ECS found...'' []]\<rparr>,
      [], None)"
  by (simp add: engine_defs scenario_defs)

text \<open>
  C2. A plain group that no status query ever reports: the engine sleeps and re-checks
  once, raises its counter to 1, and goes on to the tagging blocks. No warning is
  logged, and the batch is not abandoned by the retry ceiling.
\<close>

theorem stop_shortfall_never_warns:
  "stop_instances silent no_tags [plain_instance ''a''] empty_world =
     (\<lparr>trace = [(UpdateGroup ''a'' 0 0, None), (DescribeGroups [''a''], None),
                (Sleep 5, None), (DescribeGroups [''a''], None)],
       logs = [Log INFO ''asg_ids : {}'' [PyStr ''a''],
               Log INFO ''asg_ecs_ids : {}'' [PyStr []],
               Log INFO ''No affected ECS found...'' []]\<rparr>,
      [], None)"
  by (simp add: engine_defs scenario_defs)

text \<open>
  C3. A plain group whose three instances are still in service when the status is
  queried: \<open>get_asg_status\<close> labels it \<open>running\<close>, and \<open>stop_instances\<close> yields it
  as stopped all the same.
\<close>

theorem stop_yields_running_group:
  "get_asg_status busy [''asg-A''] empty_world =
     (\<lparr>trace = [(DescribeGroups [''asg-A''], None)], logs = []\<rparr>, Inr [(''asg-A'', ''running'')])
   \<and> snd (stop_instances busy no_tags [plain_instance ''asg-A''] empty_world) =
     ([(''asg-A'', ''stopped'')], None)"
  by (simp add: engine_defs scenario_defs)

text \<open>
  C4. An ECS group without a termination hook: the hook lookup returns the empty list,
  indexing it raises \<open>IndexError\<close>, which \<open>except ClientError\<close> does not catch.
  \<open>stop_instances\<close> ends with that exception after the lookup, without having issued
  the scale-down.
\<close>

theorem stop_without_termination_hook_raises:
  "stop_instances hookless no_tags [ecs_instance ''asg-ecs-1''] empty_world =
     (\<lparr>trace = [(DescribeHooks ''asg-ecs-1'', None)],
       logs = [Log INFO ''asg_ids : {}'' [PyStr []],
               Log INFO ''asg_ecs_ids : {}'' [PyStr ''asg-ecs-1'']]\<rparr>,
      [], Some IndexError)"
  by (simp add: engine_defs scenario_defs)

section \<open>What a run adds to the trace\<close>

lemma ignoresD: "ignores step K \<Longrightarrow> K c \<Longrightarrow> step s (c, r) = s"
  by (simp add: ignores_def)

lemma observe_logger [simp]: "observe step s (logger l t args w) = observe step s w"
  by (simp add: observe_def logger_def)

lemma observe_record_call [simp]:
  "observe step s (record_call c r w) = step (observe step s w) (c, r)"
  by (simp add: observe_def record_call_def)

lemma observe_get_asg_status:
  "ignores step is_poll \<Longrightarrow>
   observe step s (fst (get_asg_status client ids w)) = observe step s w"
  by (simp add: get_asg_status_def ignoresD split: sum.splits)

lemma observe_hook_name:
  "ignores step is_poll \<Longrightarrow>
   observe step s (fst (get_asg_termination_lifecycle_hook_name client asg w)) = observe step s w"
  by (simp add: get_asg_termination_lifecycle_hook_name_def ignoresD split: sum.splits)

lemma observe_hook_timeout:
  "ignores step is_poll \<Longrightarrow>
   observe step s (fst (get_asg_termination_lifecycle_hook_timeout client asg w)) = observe step s w"
  by (simp add: get_asg_termination_lifecycle_hook_timeout_def ignoresD Let_def
      split: sum.splits error.splits)

lemma observe_except [simp]:
  "observe step s (fst (except_client_error e w)) = observe step s w"
  by (simp add: except_client_error_def split: error.splits)

lemma observe_prepare_for_stop:
  "ignores step is_poll \<Longrightarrow>
   observe step s (fst (prepare_for_stop client asg w)) = observe step s w"
  by (simp add: prepare_for_stop_def case_prod_beta Let_def ignoresD
      observe_hook_name observe_hook_timeout
      split: sum.splits list.splits option.splits)

lemma observe_prepare_for_start:
  "ignores step is_poll \<Longrightarrow>
   observe step s (fst (prepare_for_start client asg w)) = observe step s w"
  by (simp add: prepare_for_start_def case_prod_beta Let_def ignoresD
      observe_hook_name
      split: sum.splits list.splits option.splits)

lemma observe_stop_group:
  "ignores step is_poll \<Longrightarrow> ignores step is_stop_update \<Longrightarrow>
   observe step s (fst (stop_group client asg ids stopped w)) = observe step s w"
  by (simp add: stop_group_def case_prod_beta ignoresD observe_get_asg_status
      split: sum.splits option.splits)

lemma observe_start_items:
  assumes "ignores step is_poll" and "ignores step (is_start_update asg_conf)"
  shows "set items \<subseteq> set asg_conf \<Longrightarrow>
         observe step s (fst (start_items client items asg ids started w)) = observe step s w"
proof (induction items arbitrary: started w)
  case Nil
  show ?case by simp
next
  case (Cons item rest)
  have sub: "set rest \<subseteq> set asg_conf" using Cons.prems by simp
  show ?case
  proof (cases "fst item = asg")
    case False
    then show ?thesis using Cons.IH [OF sub] by simp
  next
    case True
    have "item \<in> set asg_conf" using Cons.prems by simp
    then have "is_start_update asg_conf
                 (UpdateGroup asg (desired_capacity (snd item)) (min_size (snd item)))"
      using True by (auto simp: list_ex_iff)
    then have u: "step s' (UpdateGroup asg (desired_capacity (snd item)) (min_size (snd item)), r)
                    = s'" for s' r
      by (rule ignoresD [OF assms(2)])
    show ?thesis
      using True u Cons.IH [OF sub] observe_get_asg_status [OF assms(1)]
      by (simp add: case_prod_beta split: option.splits sum.splits)
  qed
qed

lemma observe_start_group:
  "ignores step is_poll \<Longrightarrow> ignores step (is_start_update asg_conf) \<Longrightarrow>
   observe step s (fst (start_group client asg_conf asg ids started w)) = observe step s w"
  by (simp add: start_group_def case_prod_beta observe_start_items split: option.splits)

lemma start_items_skip:
  "g \<notin> fst ` set items \<Longrightarrow> start_items client items g ids started w = (w, started, None)"
  by (induction items) auto

lemma observe_stop_ecs_loop:
  "ignores step is_poll \<Longrightarrow> ignores step is_stop_update \<Longrightarrow>
   observe step s (fst (stop_ecs_loop client ids todo stopped w)) = observe step s w"
  by (induction todo arbitrary: stopped w)
    (simp_all add: case_prod_beta observe_prepare_for_stop observe_stop_group split: option.splits)

lemma observe_stop_plain_loop:
  "ignores step is_poll \<Longrightarrow> ignores step is_stop_update \<Longrightarrow>
   observe step s (fst (stop_plain_loop client ids todo stopped w)) = observe step s w"
  by (induction todo arbitrary: stopped w)
    (simp_all add: case_prod_beta observe_stop_group)

lemma observe_start_ecs_loop:
  "ignores step is_poll \<Longrightarrow> ignores step (is_start_update asg_conf) \<Longrightarrow>
   observe step s (fst (start_ecs_loop client asg_conf ids todo started w)) = observe step s w"
  by (induction todo arbitrary: started w)
    (simp_all add: case_prod_beta observe_prepare_for_start observe_start_group split: option.splits)

lemma observe_start_plain_loop:
  "ignores step is_poll \<Longrightarrow> ignores step (is_start_update asg_conf) \<Longrightarrow>
   observe step s (fst (start_plain_loop client asg_conf ids todo started w)) = observe step s w"
  by (induction todo arbitrary: started w)
    (simp_all add: case_prod_beta observe_start_group)

lemma observe_warn_not_stopping [simp]:
  "observe step s (warn_not_stopping b w) = observe step s w"
  by (induction b arbitrary: w) simp_all

lemma observe_warn_not_starting [simp]:
  "observe step s (warn_not_starting ids started w) = observe step s w"
  by (induction ids arbitrary: w) simp_all

lemma observe_recheck_stop:
  "ignores step is_poll \<Longrightarrow>
   observe step s (fst (recheck_stop client b ids stopped n w)) = observe step s w"
  by (simp add: recheck_stop_def get_asg_status_def Let_def ignoresD split: sum.splits)

lemma observe_recheck_start:
  "ignores step is_poll \<Longrightarrow>
   observe step s (fst (recheck_start ids started n w)) = observe step s w"
  by (simp add: recheck_start_def Let_def ignoresD)

lemma observe_stop_mutate:
  "ignores step is_poll \<Longrightarrow> ignores step is_stop_update \<Longrightarrow>
   observe step s (fst (stop_mutate client b w)) = observe step s w"
  by (simp add: stop_mutate_def case_prod_beta Let_def observe_stop_ecs_loop observe_stop_plain_loop
      split: option.splits)

lemma observe_start_mutate:
  "ignores step is_poll \<Longrightarrow> ignores step (is_start_update asg_conf) \<Longrightarrow>
   observe step s (fst (start_mutate client asg_conf b w)) = observe step s w"
  by (simp add: start_mutate_def case_prod_beta Let_def observe_start_ecs_loop
      observe_start_plain_loop split: option.splits)

lemma observe_stop_converge:
  "ignores step is_poll \<Longrightarrow>
   observe step s (fst (stop_converge client b es st w)) = observe step s w"
  by (simp add: stop_converge_def case_prod_beta observe_recheck_stop split: control.splits)

lemma observe_start_converge:
  "ignores step is_poll \<Longrightarrow>
   observe step s (fst (start_converge b es st w)) = observe step s w"
  by (simp add: start_converge_def case_prod_beta observe_recheck_start split: control.splits)

lemma observe_delete_keys:
  "ignores step is_tag_call \<Longrightarrow>
   observe step s (fst (delete_keys client asg ks w)) = observe step s w"
  by (induction ks arbitrary: w) (simp_all add: ignoresD split: option.splits)

lemma observe_delete_loop:
  "ignores step is_tag_call \<Longrightarrow>
   observe step s (fst (delete_loop client names ks w)) = observe step s w"
  by (induction names arbitrary: w)
    (simp_all add: case_prod_beta observe_delete_keys split: option.splits)

lemma observe_create_tags:
  "ignores step is_tag_call \<Longrightarrow>
   observe step s (fst (create_tags client asg ts w)) = observe step s w"
  by (induction ts arbitrary: w) (simp_all add: ignoresD split: option.splits)

lemma observe_create_loop:
  "ignores step is_tag_call \<Longrightarrow>
   observe step s (fst (create_loop client names ts w)) = observe step s w"
  by (induction names arbitrary: w)
    (simp_all add: case_prod_beta observe_create_tags split: option.splits)

lemma observe_tag_passes:
  "ignores step is_tag_call \<Longrightarrow>
   observe step s (fst (tag_passes client removed added names ks ts w)) = observe step s w"
  by (simp add: tag_passes_def case_prod_beta observe_delete_loop observe_create_loop
      split: option.splits)

lemma observe_apply_transition_tags:
  "ignores step is_tag_call \<Longrightarrow>
   observe step s (apply_transition_tags client warn removed added names ks ts w) = observe step s w"
  by (simp add: apply_transition_tags_def case_prod_beta observe_tag_passes split: option.splits)

lemma observe_tag_and_yield:
  "ignores step is_tag_call \<Longrightarrow>
   observe step s (fst (tag_and_yield client warn removed added reached names ks ts w))
     = observe step s w"
  by (simp add: tag_and_yield_def observe_apply_transition_tags)

lemma observe_stop_emit:
  "ignores step is_tag_call \<Longrightarrow>
   observe step s (fst (stop_emit client ks ts es st w)) = observe step s w"
  by (simp add: stop_emit_def case_prod_beta observe_tag_and_yield)

lemma observe_start_emit:
  "ignores step is_tag_call \<Longrightarrow>
   observe step s (fst (start_emit client ks ts es st w)) = observe step s w"
  by (simp add: start_emit_def case_prod_beta observe_tag_and_yield)

lemma observe_stop_batch:
  "ignores step is_poll \<Longrightarrow> ignores step is_stop_update \<Longrightarrow> ignores step is_tag_call \<Longrightarrow>
   observe step s (fst (stop_batch client ks ts b w)) = observe step s w"
  by (simp add: stop_batch_def case_prod_beta observe_stop_mutate observe_stop_converge
      observe_stop_emit split: option.splits control.splits)

lemma observe_start_batch:
  "ignores step is_poll \<Longrightarrow> ignores step (is_start_update asg_conf) \<Longrightarrow>
   ignores step is_tag_call \<Longrightarrow>
   observe step s (fst (start_batch client asg_conf ks ts b w)) = observe step s w"
  by (simp add: start_batch_def case_prod_beta observe_start_mutate observe_start_converge
      observe_start_emit split: option.splits control.splits)

lemma observe_stop_batches:
  "ignores step is_poll \<Longrightarrow> ignores step is_stop_update \<Longrightarrow> ignores step is_tag_call \<Longrightarrow>
   observe step s (fst (stop_batches client ks ts bs w)) = observe step s w"
  by (induction bs arbitrary: w)
    (simp_all add: case_prod_beta observe_stop_batch split: control.splits)

lemma observe_start_batches:
  "ignores step is_poll \<Longrightarrow> ignores step (is_start_update asg_conf) \<Longrightarrow>
   ignores step is_tag_call \<Longrightarrow>
   observe step s (fst (start_batches client asg_conf ks ts bs w)) = observe step s w"
  by (induction bs arbitrary: w)
    (simp_all add: case_prod_beta observe_start_batch split: control.splits)

lemma observe_stop_instances:
  "ignores step is_poll \<Longrightarrow> ignores step is_stop_update \<Longrightarrow> ignores step is_tag_call \<Longrightarrow>
   observe step s (fst (stop_instances client cfg insts w)) = observe step s w"
  by (simp add: stop_instances_def Let_def observe_stop_batches split: option.splits)

lemma observe_start_instances:
  "ignores step is_poll \<Longrightarrow> ignores step (is_start_update asg_conf) \<Longrightarrow>
   ignores step is_tag_call \<Longrightarrow>
   observe step s (fst (start_instances client cfg asg_conf insts w)) = observe step s w"
  by (simp add: start_instances_def Let_def observe_start_batches split: option.splits)

lemma filter_as_observe:
  "filter P (trace w) = observe (\<lambda>acc x. if P x then acc @ [x] else acc) [] w"
proof -
  have "foldl (\<lambda>acc x. if P x then acc @ [x] else acc) acc0 xs = acc0 @ filter P xs" for acc0 xs
    by (induction xs arbitrary: acc0) simp_all
  then show ?thesis by (simp add: observe_def)
qed

lemma ignores_filter:
  "(\<And>c r. K c \<Longrightarrow> \<not> P (c, r)) \<Longrightarrow> ignores (\<lambda>acc x. if P x then acc @ [x] else acc) K"
  by (simp add: ignores_def)

lemma poll_not_update: "is_poll c \<Longrightarrow> \<not> updates_of g (c, r)"
  by (cases c) simp_all

lemma tag_call_not_update: "is_tag_call c \<Longrightarrow> \<not> updates_of g (c, r)"
  by (cases c) simp_all

lemma start_update_not_update:
  "g \<notin> fst ` set asg_conf \<Longrightarrow> is_start_update asg_conf c \<Longrightarrow> \<not> updates_of g (c, r)"
  by (cases c) (auto simp: list_ex_iff)

lemma scaling_ignores_poll: "ignores (scaling_step g) is_poll"
  unfolding ignores_def
proof (intro allI impI)
  fix s c r assume "is_poll c"
  then show "scaling_step g s (c, r) = s" by (cases c; cases r) simp_all
qed

lemma scaling_ignores_tag_call: "ignores (scaling_step g) is_tag_call"
  unfolding ignores_def
proof (intro allI impI)
  fix s c r assume "is_tag_call c"
  then show "scaling_step g s (c, r) = s" by (cases c; cases r) simp_all
qed

lemma scaling_ignores_start_update:
  assumes "g \<notin> fst ` set asg_conf"
  shows "ignores (scaling_step g) (is_start_update asg_conf)"
  unfolding ignores_def
proof (intro allI impI)
  fix s c r assume "is_start_update asg_conf c"
  then show "scaling_step g s (c, r) = s"
    using assms by (cases c; cases r) (auto simp: list_ex_iff)
qed

text \<open>
  C9. A group that is the key of no item of \<open>asg_conf\<close>: the scale-up step of that group returns
  the world as it found it (no call, no log line) and leaves the list of started names
  alone; over a whole run of \<open>start_instances\<close> no scaling mutation is sent for the
  group, so its desired capacity and minimum size are what they were.
\<close>

theorem start_skips_unconfigured_group:
  assumes "g \<notin> fst ` set asg_conf"
  shows "start_group client asg_conf g subset_ids started w = (w, started)
       \<and> filter (updates_of g) (trace (fst (start_instances client cfg asg_conf insts w)))
           = filter (updates_of g) (trace w)
       \<and> scaling_after g s (fst (start_instances client cfg asg_conf insts w)) = scaling_after g s w"
proof -
  let ?step = "\<lambda>acc x. if updates_of g x then acc @ [x] else acc"
  have a: "start_group client asg_conf g subset_ids started w = (w, started)"
    using assms by (simp add: start_group_def start_items_skip)
  have "observe ?step [] (fst (start_instances client cfg asg_conf insts w)) = observe ?step [] w"
  proof (rule observe_start_instances)
    show "ignores ?step is_poll"
      by (rule ignores_filter) (rule poll_not_update)
    show "ignores ?step (is_start_update asg_conf)"
      by (rule ignores_filter) (rule start_update_not_update [OF assms])
    show "ignores ?step is_tag_call"
      by (rule ignores_filter) (rule tag_call_not_update)
  qed
  then have b: "filter (updates_of g) (trace (fst (start_instances client cfg asg_conf insts w)))
           = filter (updates_of g) (trace w)"
    by (simp add: filter_as_observe)
  have "observe (scaling_step g) s (fst (start_instances client cfg asg_conf insts w))
          = observe (scaling_step g) s w"
    by (rule observe_start_instances)
      (rule scaling_ignores_poll scaling_ignores_start_update [OF assms]
         scaling_ignores_tag_call)+
  then have c: "scaling_after g s (fst (start_instances client cfg asg_conf insts w))
          = scaling_after g s w"
    by (simp add: scaling_after_def observe_def)
  from a b c show ?thesis by blast
qed

theorem start_skips_unconfigured_group_witness:
  "''b'' \<notin> fst ` set only_a
   \<and> start_group calm only_a ''b'' [''a'', ''b''] [] empty_world = (empty_world, [])
   \<and> filter (updates_of ''b'')
        (trace (fst (start_instances calm no_tags only_a
                       [plain_instance ''a'', plain_instance ''b''] empty_world))) = []
   \<and> scaling_after ''b'' (3, 1)
        (fst (start_instances calm no_tags only_a
                [plain_instance ''a'', plain_instance ''b''] empty_world)) = (3, 1)
   \<and> start_instances calm no_tags only_a [plain_instance ''a'', plain_instance ''b''] empty_world =
       (\<lparr>trace = [(UpdateGroup ''a'' 2 1, None), (DescribeGroups [''a'', ''b''], None)],
         logs = [Log INFO ''No affected ECS found...'' []]\<rparr>,
        [(''a'', ''running''), (''b'', ''running'')], None)"
proof -
  have h: "''b'' \<notin> fst ` set only_a" by (simp add: only_a_def)
  have e: "start_instances calm no_tags only_a [plain_instance ''a'', plain_instance ''b''] empty_world =
       (\<lparr>trace = [(UpdateGroup ''a'' 2 1, None), (DescribeGroups [''a'', ''b''], None)],
         logs = [Log INFO ''No affected ECS found...'' []]\<rparr>,
        [(''a'', ''running''), (''b'', ''running'')], None)"
    by (simp add: engine_defs scenario_defs)
  show ?thesis
    using start_skips_unconfigured_group [where asg_conf = only_a and g = "''b''"
        and client = calm and subset_ids = "[''a'', ''b'']" and started = "[]"
        and w = empty_world and cfg = no_tags
        and insts = "[plain_instance ''a'', plain_instance ''b'']" and s = "(3, 1)", OF h] h e
    by (simp add: empty_world_def scaling_after_def)
qed

section \<open>Tag bookkeeping: failures\<close>

lemma trace_logger [simp]: "trace (logger l t args w) = trace w"
  by (simp add: logger_def)

lemma logs_logger [simp]: "logs (logger l t args w) = logs w @ [Log l t args]"
  by (simp add: logger_def)

lemma trace_record_call [simp]: "trace (record_call c r w) = trace w @ [(c, r)]"
  by (simp add: record_call_def)

lemma logs_record_call [simp]: "logs (record_call c r w) = logs w"
  by (simp add: record_call_def)

lemma failures_append [simp]: "failures (xs @ ys) = failures xs @ failures ys"
  by (simp add: failures_def map_filter_def)

lemma failures_simps [simp]:
  "failures [] = []" "failures ((c, None) # xs) = failures xs"
  "failures ((c, Some e) # xs) = e # failures xs"
  by (simp_all add: failures_def map_filter_def)

lemma pass_resultI:
  "trace w' = trace w @ seg \<Longrightarrow> failures seg = opt_list r \<Longrightarrow> pass_result w (w', r)"
  by (auto simp: pass_result_def)

lemma pass_result_trans:
  "pass_result w (w1, None) \<Longrightarrow> pass_result w1 res \<Longrightarrow> pass_result w res"
  by (auto simp: pass_result_def)

lemma delete_keys_result: "pass_result w (delete_keys client asg ks w)"
proof (induction ks arbitrary: w)
  case Nil
  show ?case by (simp add: pass_result_def)
next
  case (Cons k ks)
  show ?case
  proof (cases "delete_tags client (tick w) asg k")
    case None
    have "pass_result w (record_call (DeleteTags asg k) None w, None)"
      by (simp add: pass_result_def)
    from pass_result_trans [OF this Cons.IH] show ?thesis using None by simp
  next
    case (Some ex)
    then show ?thesis by (simp add: pass_result_def)
  qed
qed

lemma delete_keys_logs: "logs (fst (delete_keys client asg ks w)) = logs w"
  by (induction ks arbitrary: w) (auto split: option.splits)

lemma delete_loop_result: "pass_result w (delete_loop client names keys w)"
proof (induction names arbitrary: w)
  case Nil
  show ?case by (simp add: pass_result_def)
next
  case (Cons a names)
  obtain w1 r where d: "delete_keys client a keys w = (w1, r)" by force
  have p: "pass_result w (w1, r)" using delete_keys_result [of w client a keys] d by simp
  show ?case
  proof (cases r)
    case None
    from pass_result_trans [OF p [unfolded None] Cons.IH] show ?thesis using d None by simp
  next
    case (Some ex)
    then show ?thesis using p d by simp
  qed
qed

lemma delete_loop_logs: "logs (fst (delete_loop client names keys w)) = logs w"
proof (induction names arbitrary: w)
  case Nil
  show ?case by simp
next
  case (Cons a names)
  obtain w1 r where d: "delete_keys client a keys w = (w1, r)" by force
  have "logs w1 = logs w" using delete_keys_logs [of client a keys w] d by simp
  then show ?case using d Cons.IH [of w1] by (cases r) auto
qed

lemma create_tags_result: "pass_result w (create_tags client asg ts w)"
proof (induction ts arbitrary: w)
  case Nil
  show ?case by (simp add: pass_result_def)
next
  case (Cons k ks)
  show ?case
  proof (cases "create_or_update_tags client (tick w) asg (fst k) (snd k)")
    case None
    have "pass_result w (record_call (CreateOrUpdateTags asg (fst k) (snd k) False) None w, None)"
      by (simp add: pass_result_def)
    from pass_result_trans [OF this Cons.IH] show ?thesis using None by simp
  next
    case (Some ex)
    then show ?thesis by (simp add: pass_result_def)
  qed
qed

lemma create_tags_logs: "logs (fst (create_tags client asg ts w)) = logs w"
  by (induction ts arbitrary: w) (auto split: option.splits)

lemma create_loop_result: "pass_result w (create_loop client names tags w)"
proof (induction names arbitrary: w)
  case Nil
  show ?case by (simp add: pass_result_def)
next
  case (Cons a names)
  obtain w1 r where d: "create_tags client a tags w = (w1, r)" by force
  have p: "pass_result w (w1, r)" using create_tags_result [of w client a tags] d by simp
  show ?case
  proof (cases r)
    case None
    from pass_result_trans [OF p [unfolded None] Cons.IH] show ?thesis using d None by simp
  next
    case (Some ex)
    then show ?thesis using p d by simp
  qed
qed

lemma create_loop_logs: "logs (fst (create_loop client names tags w)) = logs w"
proof (induction names arbitrary: w)
  case Nil
  show ?case by simp
next
  case (Cons a names)
  obtain w1 r where d: "create_tags client a tags w = (w1, r)" by force
  have "logs w1 = logs w" using create_tags_logs [of client a tags w] d by simp
  then show ?case using d Cons.IH [of w1] by (cases r) auto
qed

lemma pass_result_logger:
  "pass_result (logger l t args w) res \<Longrightarrow> pass_result w res"
  by (simp add: pass_result_def)

lemma pass_result_refl: "pass_result w (w, None)"
  by (simp add: pass_result_def)

lemma tag_passes_result:
  "pass_result w (tag_passes client removed added names remove_keys add_tags w)"
proof -
  define d where "d = (if remove_keys \<noteq> []
            then delete_loop client names remove_keys
                   (logger INFO INFO_REMOVING_KEYS
                      [PyStr removed, PyStr (join '','' (map (\<lambda>k. CHR 0x22 # k @ [CHR 0x22]) remove_keys)),
                       PyStr (join '','' names)] w)
            else (w, None))"
  have p1: "pass_result w d"
    unfolding d_def
    by (simp add: pass_result_refl pass_result_logger [OF delete_loop_result])
  obtain w1 r1 where d: "d = (w1, r1)" by (cases d)
  show ?thesis
  proof (cases r1)
    case (Some ex)
    have "tag_passes client removed added names remove_keys add_tags w = (w1, Some ex)"
      unfolding tag_passes_def d_def [symmetric] d Some by simp
    then show ?thesis using p1 d Some by simp
  next
    case None
    define c where "c = (if length add_tags > 0
              then create_loop client names add_tags
                  (logger INFO INF_ADD_KEYS
                     [PyStr added, PyStr (str_of_tags add_tags), PyStr (join '','' names)] w1)
              else (w1, None))"
    have p2: "pass_result w1 c"
      unfolding c_def
      by (simp add: pass_result_refl pass_result_logger [OF create_loop_result])
    have "tag_passes client removed added names remove_keys add_tags w = c"
      unfolding tag_passes_def d_def [symmetric] d None c_def by simp
    moreover have "pass_result w (w1, None)" using p1 d None by simp
    ultimately show ?thesis using pass_result_trans [OF _ p2] by simp
  qed
qed

lemma tag_passes_logs_prefix:
  "\<exists>infos. logs (fst (tag_passes client removed added names remove_keys add_tags w)) = logs w @ infos"
  by (simp add: tag_passes_def case_prod_beta delete_loop_logs create_loop_logs
      split: option.splits)

lemma apply_transition_tags_warns:
  assumes "ex \<in> set (failures (new_calls w
             (apply_transition_tags client warn removed added names remove_keys add_tags w)))"
  shows "Log WARNING warn [PyStr (join '','' names), PyStr (str_of_error ex)]
           \<in> set (logs (apply_transition_tags client warn removed added names remove_keys add_tags w))"
proof -
  obtain w1 r where t: "tag_passes client removed added names remove_keys add_tags w = (w1, r)"
    by force
  from tag_passes_result [of w client removed added names remove_keys add_tags] t
  obtain seg where seg: "trace w1 = trace w @ seg" "failures seg = opt_list r"
    by (auto simp: pass_result_def)
  show ?thesis
  proof (cases r)
    case None
    then have "apply_transition_tags client warn removed added names remove_keys add_tags w = w1"
      using t by (simp add: apply_transition_tags_def)
    then show ?thesis using assms seg None by (simp add: new_calls_def)
  next
    case (Some e)
    then have a: "apply_transition_tags client warn removed added names remove_keys add_tags w
        = logger WARNING warn [PyStr (join '','' names), PyStr (str_of_error e)] w1"
      using t by (simp add: apply_transition_tags_def)
    then have "ex = e" using assms seg Some by (simp add: new_calls_def)
    then show ?thesis using a by simp
  qed
qed

lemma tag_and_yield_out:
  "snd (tag_and_yield client warn removed added reached names ks ts w) = map (\<lambda>i. (i, reached)) names"
  by (simp add: tag_and_yield_def)

lemma stop_emit_out:
  "snd (stop_emit client ks ts ecs_stopped stopped w)
     = map (\<lambda>i. (i, STATE_STOPPED)) (ecs_stopped @ stopped)"
  by (simp add: stop_emit_def case_prod_beta tag_and_yield_out)

lemma start_emit_out:
  "snd (start_emit client ks ts ecs_started started w)
     = map (\<lambda>i. (i, STATE_RUNNING)) (ecs_started @ started)"
  by (simp add: start_emit_def case_prod_beta tag_and_yield_out)

text \<open>
  C6. Whatever the tag calls do, the tagging blocks of \<open>stop_instances\<close> yield every
  name of the two stopped lists with the stopped state, those of \<open>start_instances\<close>
  every name of the two started lists with the running state, and neither returns an
  exception. An exception raised by a tag call of a block is logged as a warning that
  names the block's groups.
\<close>

theorem tagging_failure_keeps_yield:
  "snd (stop_emit client ks ts ecs_stopped stopped w)
     = map (\<lambda>i. (i, STATE_STOPPED)) (ecs_stopped @ stopped)
   \<and> snd (start_emit client ks ts ecs_started started w)
     = map (\<lambda>i. (i, STATE_RUNNING)) (ecs_started @ started)
   \<and> snd (tag_and_yield client warn removed added reached names ks ts w)
     = map (\<lambda>i. (i, reached)) names
   \<and> (\<forall>ex \<in> set (failures (new_calls w
          (fst (tag_and_yield client warn removed added reached names ks ts w)))).
        Log WARNING warn [PyStr (join '','' names), PyStr (str_of_error ex)]
          \<in> set (logs (fst (tag_and_yield client warn removed added reached names ks ts w))))"
proof -
  have "\<forall>ex \<in> set (failures (new_calls w
          (fst (tag_and_yield client warn removed added reached names ks ts w)))).
        Log WARNING warn [PyStr (join '','' names), PyStr (str_of_error ex)]
          \<in> set (logs (fst (tag_and_yield client warn removed added reached names ks ts w)))"
  proof (cases "length names > 0")
    case True
    then show ?thesis
      using apply_transition_tags_warns [of _ w client warn removed added names ks ts]
      by (simp add: tag_and_yield_def)
  next
    case False
    then show ?thesis by (simp add: tag_and_yield_def new_calls_def)
  qed
  then show ?thesis
    by (simp only: stop_emit_out start_emit_out tag_and_yield_out simp_thms)
qed

theorem tagging_failure_keeps_yield_witness:
  "failures (new_calls empty_world
      (fst (tag_and_yield denied WARN_STOPPED_ASG_INSTANCES_TAGGING ''start'' ''stop'' STATE_STOPPED
              [''a''] [''started-by''] [(''state'', ''off'')] empty_world)))
     = [ClientError ''AccessDenied'']
   \<and> Log WARNING WARN_STOPPED_ASG_INSTANCES_TAGGING [PyStr ''a'', PyStr ''AccessDenied'']
       \<in> set (logs (fst (tag_and_yield denied WARN_STOPPED_ASG_INSTANCES_TAGGING ''start'' ''stop''
                            STATE_STOPPED [''a''] [''started-by''] [(''state'', ''off'')] empty_world)))
   \<and> snd (tag_and_yield denied WARN_STOPPED_ASG_INSTANCES_TAGGING ''start'' ''stop'' STATE_STOPPED
              [''a''] [''started-by''] [(''state'', ''off'')] empty_world) = [(''a'', STATE_STOPPED)]
   \<and> snd (stop_instances denied state_tags [plain_instance ''a''] empty_world)
       = ([(''a'', ''stopped'')], None)"
proof -
  let ?w = "fst (tag_and_yield denied WARN_STOPPED_ASG_INSTANCES_TAGGING ''start'' ''stop''
                   STATE_STOPPED [''a''] [''started-by''] [(''state'', ''off'')] empty_world)"
  have f: "failures (new_calls empty_world ?w) = [ClientError ''AccessDenied'']"
    by (simp add: engine_defs scenario_defs new_calls_def)
  note t = tagging_failure_keeps_yield [where client = denied
      and warn = WARN_STOPPED_ASG_INSTANCES_TAGGING and removed = "''start''" and added = "''stop''"
      and reached = STATE_STOPPED and names = "[''a'']" and ks = "[''started-by'']"
      and ts = "[(''state'', ''off'')]" and w = empty_world]
  have m: "Log WARNING WARN_STOPPED_ASG_INSTANCES_TAGGING [PyStr ''a'', PyStr ''AccessDenied'']
       \<in> set (logs ?w)"
    using t f by simp
  have y: "snd (tag_and_yield denied WARN_STOPPED_ASG_INSTANCES_TAGGING ''start'' ''stop''
              STATE_STOPPED [''a''] [''started-by''] [(''state'', ''off'')] empty_world)
           = [(''a'', STATE_STOPPED)]"
    using t by simp
  have e: "snd (stop_instances denied state_tags [plain_instance ''a''] empty_world)
       = ([(''a'', ''stopped'')], None)"
    by (simp add: engine_defs scenario_defs)
  from f m y e show ?thesis by blast
qed

section \<open>Tag bookkeeping: the tags after a stop\<close>

lemma tags_after_observe: "tags_after ts w = observe apply_call ts w"
  by (simp add: tags_after_def replay_def observe_def)

lemma tags_after_logger [simp]: "tags_after ts (logger l t args w) = tags_after ts w"
  by (simp add: tags_after_observe)

lemma tags_after_record_call [simp]:
  "tags_after ts (record_call c r w) = apply_call (tags_after ts w) (c, r)"
  by (simp add: tags_after_observe)

lemma apply_call_ignores_poll: "ignores apply_call is_poll"
  unfolding ignores_def
proof (intro allI impI)
  fix s :: tag_store and c r assume "is_poll c"
  then show "apply_call s (c, r) = s" by (cases c; cases r) simp_all
qed

lemma apply_call_ignores_stop_update: "ignores apply_call is_stop_update"
  unfolding ignores_def
proof (intro allI impI)
  fix s :: tag_store and c r assume "is_stop_update c"
  then show "apply_call s (c, r) = s" by (cases c; cases r) simp_all
qed

lemma delete_keys_ok:
  assumes "\<And>n a k. delete_tags client n a k = None"
  shows "snd (delete_keys client asg ks w) = None
       \<and> tags_after ts (fst (delete_keys client asg ks w))
           = (\<lambda>g k. if g = asg \<and> k \<in> set ks then None else tags_after ts w g k)"
proof (induction ks arbitrary: w)
  case Nil
  show ?case by simp
next
  case (Cons k ks)
  have "delete_keys client asg (k # ks) w
          = delete_keys client asg ks (record_call (DeleteTags asg k) None w)"
    by (simp add: assms)
  then show ?case
    using Cons.IH [of "record_call (DeleteTags asg k) None w"]
    by (auto simp: fun_eq_iff)
qed

lemma delete_loop_ok:
  assumes "\<And>n a k. delete_tags client n a k = None"
  shows "snd (delete_loop client names ks w) = None
       \<and> tags_after ts (fst (delete_loop client names ks w))
           = (\<lambda>g k. if g \<in> set names \<and> k \<in> set ks then None else tags_after ts w g k)"
proof (induction names arbitrary: w)
  case Nil
  show ?case by simp
next
  case (Cons a names)
  obtain w1 where d: "delete_keys client a ks w = (w1, None)"
    using delete_keys_ok [OF assms, of a ks w ts] by (cases "delete_keys client a ks w") simp
  have t1: "tags_after ts w1 = (\<lambda>g k. if g = a \<and> k \<in> set ks then None else tags_after ts w g k)"
    using delete_keys_ok [OF assms, of a ks w ts] d by simp
  have "delete_loop client (a # names) ks w = delete_loop client names ks w1"
    using d by simp
  then show ?case using Cons.IH [of w1] t1 by (auto simp: fun_eq_iff)
qed

lemma create_tags_ok:
  assumes "\<And>n a k v. create_or_update_tags client n a k v = None"
  shows "snd (create_tags client asg tags w) = None
       \<and> tags_after ts (fst (create_tags client asg tags w))
           = (\<lambda>g k. if g = asg
                     then (case map_of (rev tags) k of
                             Some v \<Rightarrow> Some (v, False) | None \<Rightarrow> tags_after ts w g k)
                     else tags_after ts w g k)"
proof (induction tags arbitrary: w)
  case Nil
  show ?case by (simp add: fun_eq_iff)
next
  case (Cons t tags)
  have "create_tags client asg (t # tags) w
          = create_tags client asg tags (record_call (CreateOrUpdateTags asg (fst t) (snd t) False) None w)"
    by (simp add: assms)
  then show ?case
    using Cons.IH [of "record_call (CreateOrUpdateTags asg (fst t) (snd t) False) None w"]
    by (auto simp: fun_eq_iff map_add_def split: option.splits)
qed

lemma create_loop_ok:
  assumes "\<And>n a k v. create_or_update_tags client n a k v = None"
  shows "snd (create_loop client names tags w) = None
       \<and> tags_after ts (fst (create_loop client names tags w))
           = (\<lambda>g k. if g \<in> set names
                     then (case map_of (rev tags) k of
                             Some v \<Rightarrow> Some (v, False) | None \<Rightarrow> tags_after ts w g k)
                     else tags_after ts w g k)"
proof (induction names arbitrary: w)
  case Nil
  show ?case by simp
next
  case (Cons a names)
  obtain w1 where d: "create_tags client a tags w = (w1, None)"
    using create_tags_ok [OF assms, of a tags w ts] by (cases "create_tags client a tags w") simp
  have t1: "tags_after ts w1 = (\<lambda>g k. if g = a
                     then (case map_of (rev tags) k of
                             Some v \<Rightarrow> Some (v, False) | None \<Rightarrow> tags_after ts w g k)
                     else tags_after ts w g k)"
    using create_tags_ok [OF assms, of a tags w ts] d by simp
  have "create_loop client (a # names) tags w = create_loop client names tags w1"
    using d by simp
  then show ?case using Cons.IH [of w1] t1 by (auto simp: fun_eq_iff split: option.splits)
qed

lemma tag_passes_ok:
  assumes "\<And>n a k. delete_tags client n a k = None"
      and "\<And>n a k v. create_or_update_tags client n a k v = None"
  shows "snd (tag_passes client removed added names ks tags w) = None
       \<and> tags_after ts (fst (tag_passes client removed added names ks tags w))
           = (\<lambda>g k. if g \<in> set names
                     then (case map_of (rev tags) k of
                             Some v \<Rightarrow> Some (v, False)
                           | None \<Rightarrow> if k \<in> set ks then None else tags_after ts w g k)
                     else tags_after ts w g k)"
  by (auto simp: tag_passes_def case_prod_beta fun_eq_iff
        delete_loop_ok [OF assms(1)] create_loop_ok [OF assms(2)] split: option.splits)

lemma apply_transition_tags_ok:
  assumes "\<And>n a k. delete_tags client n a k = None"
      and "\<And>n a k v. create_or_update_tags client n a k v = None"
  shows "tags_after ts (apply_transition_tags client warn removed added names ks tags w)
           = (\<lambda>g k. if g \<in> set names
                     then (case map_of (rev tags) k of
                             Some v \<Rightarrow> Some (v, False)
                           | None \<Rightarrow> if k \<in> set ks then None else tags_after ts w g k)
                     else tags_after ts w g k)"
proof -
  obtain w1 where t: "tag_passes client removed added names ks tags w = (w1, None)"
    using tag_passes_ok [OF assms, of removed added names ks tags w ts]
    by (cases "tag_passes client removed added names ks tags w") simp
  then have "apply_transition_tags client warn removed added names ks tags w = w1"
    by (simp add: apply_transition_tags_def)
  then show ?thesis
    using tag_passes_ok [OF assms, of removed added names ks tags w ts] t by simp
qed

lemma tag_and_yield_carries:
  assumes "\<And>n a k. delete_tags client n a k = None"
      and "\<And>n a k v. create_or_update_tags client n a k v = None"
      and "g \<in> set names \<or> carries tags ks (tags_after ts w g)"
  shows "carries tags ks
           (tags_after ts (fst (tag_and_yield client warn removed added reached names ks tags w)) g)"
proof (cases "length names > 0")
  case True
  then show ?thesis
    using assms(3)
    by (auto simp: tag_and_yield_def apply_transition_tags_ok [OF assms(1,2)] carries_def)
next
  case False
  then show ?thesis using assms(3) by (simp add: tag_and_yield_def)
qed

lemma stop_emit_carries:
  assumes "\<And>n a k. delete_tags client n a k = None"
      and "\<And>n a k v. create_or_update_tags client n a k v = None"
      and "g \<in> set es \<or> g \<in> set st \<or> carries tags ks (tags_after ts w g)"
  shows "carries tags ks (tags_after ts (fst (stop_emit client ks tags es st w)) g)"
proof -
  let ?w1 = "fst (tag_and_yield client WARN_STOPPED_ASG_INSTANCES_TAGGING ''start'' ''stop''
                    STATE_STOPPED es ks tags w)"
  have "g \<in> set st \<or> carries tags ks (tags_after ts ?w1 g)"
    using assms(3) tag_and_yield_carries [OF assms(1,2), of g es tags ks ts w] by blast
  then have "carries tags ks
     (tags_after ts (fst (tag_and_yield client WARN_STOPPED_ASG_INSTANCES_TAGGING ''start'' ''stop''
                    STATE_STOPPED st ks tags ?w1)) g)"
    by (rule tag_and_yield_carries [OF assms(1,2)])
  then show ?thesis by (simp add: stop_emit_def case_prod_beta)
qed

lemma tags_after_stop_mutate:
  "tags_after ts (fst (stop_mutate client b w)) = tags_after ts w"
  by (simp add: tags_after_observe observe_stop_mutate apply_call_ignores_poll
      apply_call_ignores_stop_update)

lemma tags_after_stop_converge:
  "tags_after ts (fst (stop_converge client b es st w)) = tags_after ts w"
  by (simp add: tags_after_observe observe_stop_converge apply_call_ignores_poll)

lemma stop_batch_carries:
  assumes "\<And>n a k. delete_tags client n a k = None"
      and "\<And>n a k v. create_or_update_tags client n a k v = None"
      and "g \<in> fst ` set (fst (snd (stop_batch client ks tags b w)))
           \<or> carries tags ks (tags_after ts w g)"
  shows "carries tags ks (tags_after ts (fst (stop_batch client ks tags b w)) g)"
proof -
  obtain w1 es st r where m: "stop_mutate client b w = (w1, es, st, r)"
    by (cases "stop_mutate client b w") auto
  have t1: "tags_after ts w1 = tags_after ts w"
    using tags_after_stop_mutate [of ts client b w] m by simp
  show ?thesis
  proof (cases r)
    case (Some e)
    then show ?thesis using m t1 assms(3) by (simp add: stop_batch_def)
  next
    case None
    obtain w2 es' st' n c where cv: "stop_converge client b es st w1 = (w2, es', st', n, c)"
      by (cases "stop_converge client b es st w1") auto
    have t2: "tags_after ts w2 = tags_after ts w"
      using tags_after_stop_converge [of ts client b es st w1] cv t1 by simp
    show ?thesis
    proof (cases c)
      case Continue
      have sb: "stop_batch client ks tags b w
                  = (fst (stop_emit client ks tags es' st' w2),
                     snd (stop_emit client ks tags es' st' w2), Continue)"
        using m None cv Continue by (simp add: stop_batch_def case_prod_beta)
      have "g \<in> set es' \<or> g \<in> set st' \<or> carries tags ks (tags_after ts w2 g)"
        using assms(3) sb t2 by (auto simp: stop_emit_out)
      then show ?thesis
        using stop_emit_carries [OF assms(1,2), of g es' st' tags ks ts w2] sb by simp
    next
      case Break
      then show ?thesis using m None cv t2 assms(3) by (simp add: stop_batch_def)
    next
      case (Raise e)
      then show ?thesis using m None cv t2 assms(3) by (simp add: stop_batch_def)
    qed
  qed
qed

lemma stop_batches_carries:
  assumes "\<And>n a k. delete_tags client n a k = None"
      and "\<And>n a k v. create_or_update_tags client n a k v = None"
  shows "g \<in> fst ` set (fst (snd (stop_batches client ks tags bs w)))
           \<or> carries tags ks (tags_after ts w g)
         \<Longrightarrow> carries tags ks (tags_after ts (fst (stop_batches client ks tags bs w)) g)"
proof (induction bs arbitrary: w)
  case Nil
  then show ?case by simp
next
  case (Cons b bs)
  obtain w1 out c where sb: "stop_batch client ks tags b w = (w1, out, c)"
    by (cases "stop_batch client ks tags b w") auto
  note one = stop_batch_carries [OF assms, of g ks tags b w ts]
  show ?case
  proof (cases c)
    case Continue
    obtain w2 out' r where rest: "stop_batches client ks tags bs w1 = (w2, out', r)"
      by (cases "stop_batches client ks tags bs w1") auto
    have all: "stop_batches client ks tags (b # bs) w = (w2, out @ out', r)"
      using sb Continue rest by simp
    have "g \<in> fst ` set out' \<or> carries tags ks (tags_after ts w1 g)"
      using Cons.prems all one sb by auto
    then have "carries tags ks (tags_after ts w2 g)"
      using Cons.IH [of w1] rest by simp
    then show ?thesis using all by simp
  next
    case Break
    then show ?thesis using sb Cons.prems one by simp
  next
    case (Raise e)
    then show ?thesis using sb Cons.prems one by simp
  qed
qed

lemma propagating_ignored:
  "ignores (\<lambda>acc x. if propagating x then acc @ [x] else acc) is_poll"
  "ignores (\<lambda>acc x. if propagating x then acc @ [x] else acc) is_stop_update"
  "ignores (\<lambda>acc x. if propagating x then acc @ [x] else acc) is_tag_call"
proof -
  have "\<not> propagating (c, r)" if "is_poll c" for c r using that by (cases c) simp_all
  then show "ignores (\<lambda>acc x. if propagating x then acc @ [x] else acc) is_poll"
    by (rule ignores_filter)
  have "\<not> propagating (c, r)" if "is_stop_update c" for c r using that by (cases c) simp_all
  then show "ignores (\<lambda>acc x. if propagating x then acc @ [x] else acc) is_stop_update"
    by (rule ignores_filter)
  have "\<not> propagating (c, r)" if "is_tag_call c" for c r using that by (cases c) simp_all
  then show "ignores (\<lambda>acc x. if propagating x then acc @ [x] else acc) is_tag_call"
    by (rule ignores_filter)
qed

lemma removal_keys_set:
  "set (removal_keys start_tags stop_tags) = fst ` set start_tags - fst ` set stop_tags"
  by (auto simp: removal_keys_def)

lemma map_of_rev_None: "k \<notin> fst ` set xs \<Longrightarrow> map_of (rev xs) k = None"
  by (simp add: map_of_eq_None_iff)

text \<open>
  C5. When no tag call is refused, every group that \<open>stop_instances\<close> yields ends with
  these tags, whatever its tags were before: a key of the stop tags (in particular one
  that is also a key of the start tags) holds the stop-tag value, the value of the key's
  last entry in the list, which is its only entry when keys are unique; a key of the
  start tags that is not a key of the stop tags is absent; a key shared by both lists is
  not in the removal pass; and the run adds no create-or-update call that asks for
  propagation at launch.
\<close>

theorem stop_tag_transition:
  assumes "\<And>n a k. delete_tags client n a k = None"
      and "\<And>n a k v. create_or_update_tags client n a k v = None"
      and "started_tags cfg = Some start_tags"
      and "stop_tags = (case stopped_tags cfg of None \<Rightarrow> [] | Some tags \<Rightarrow> tags)"
      and "(g, reached) \<in> set (fst (snd (stop_instances client cfg insts w)))"
  shows "(map_of (rev stop_tags) k = Some v \<longrightarrow>
            tags_after ts (fst (stop_instances client cfg insts w)) g k = Some (v, False))
       \<and> (k \<in> fst ` set start_tags \<and> k \<notin> fst ` set stop_tags \<longrightarrow>
            tags_after ts (fst (stop_instances client cfg insts w)) g k = None)
       \<and> (k \<in> fst ` set stop_tags \<longrightarrow> k \<notin> set (removal_keys start_tags stop_tags))
       \<and> filter propagating (trace (fst (stop_instances client cfg insts w)))
           = filter propagating (trace w)"
proof -
  let ?ks = "removal_keys start_tags stop_tags"
  let ?bs = "instance_batches insts STOP_BATCH_SIZE"
  have si: "stop_instances client cfg insts w = stop_batches client ?ks stop_tags ?bs w"
    using assms(3,4) by (simp add: stop_instances_def Let_def)
  have "g \<in> fst ` set (fst (snd (stop_batches client ?ks stop_tags ?bs w)))"
    using assms(5) si by force
  then have c: "carries stop_tags ?ks (tags_after ts (fst (stop_instances client cfg insts w)) g)"
    using stop_batches_carries [OF assms(1,2), of g ?ks stop_tags ?bs w ts] si by simp
  have 1: "map_of (rev stop_tags) k = Some v \<longrightarrow>
            tags_after ts (fst (stop_instances client cfg insts w)) g k = Some (v, False)"
    using c by (simp add: carries_def)
  have 2: "k \<in> fst ` set start_tags \<and> k \<notin> fst ` set stop_tags \<longrightarrow>
            tags_after ts (fst (stop_instances client cfg insts w)) g k = None"
    using c by (simp add: carries_def removal_keys_set map_of_rev_None)
  have 3: "k \<in> fst ` set stop_tags \<longrightarrow> k \<notin> set ?ks"
    by (simp add: removal_keys_set)
  have 4: "filter propagating (trace (fst (stop_instances client cfg insts w)))
           = filter propagating (trace w)"
    by (simp add: filter_as_observe observe_stop_instances propagating_ignored)
  from 1 2 3 4 show ?thesis by blast
qed

theorem stop_tag_transition_witness:
  "started_tags state_tags = Some [(''state'', ''on''), (''started-by'', ''scheduler'')]
   \<and> (''a'', ''stopped'')
       \<in> set (fst (snd (stop_instances calm state_tags [plain_instance ''a''] empty_world)))
   \<and> tagged_on ''a'' ''state'' = Some (''on'', False)
   \<and> tags_after tagged_on
        (fst (stop_instances calm state_tags [plain_instance ''a''] empty_world)) ''a'' ''state''
       = Some (''off'', False)
   \<and> tags_after tagged_on
        (fst (stop_instances calm state_tags [plain_instance ''a''] empty_world)) ''a'' ''started-by''
       = None
   \<and> filter propagating
        (trace (fst (stop_instances calm state_tags [plain_instance ''a''] empty_world))) = []"
proof -
  have d: "delete_tags calm n a k = None" for n a k by (simp add: calm_def)
  have c: "create_or_update_tags calm n a k v = None" for n a k v by (simp add: calm_def)
  have s: "started_tags state_tags = Some [(''state'', ''on''), (''started-by'', ''scheduler'')]"
    by (simp add: state_tags_def)
  have st: "[(''state'', ''off'')] = (case stopped_tags state_tags of None \<Rightarrow> [] | Some tags \<Rightarrow> tags)"
    by (simp add: state_tags_def)
  have e: "snd (stop_instances calm state_tags [plain_instance ''a''] empty_world)
             = ([(''a'', ''stopped'')], None)"
    by (simp add: engine_defs scenario_defs)
  have m: "(''a'', ''stopped'')
       \<in> set (fst (snd (stop_instances calm state_tags [plain_instance ''a''] empty_world)))"
    using e by simp
  have o: "tagged_on ''a'' ''state'' = Some (''on'', False)" by (simp add: tagged_on_def)
  note t1 = stop_tag_transition [OF d c s st m, where k = "''state''" and v = "''off''"
      and ts = tagged_on]
  note t2 = stop_tag_transition [OF d c s st m, where k = "''started-by''" and ts = tagged_on]
  have 1: "tags_after tagged_on
        (fst (stop_instances calm state_tags [plain_instance ''a''] empty_world)) ''a'' ''state''
       = Some (''off'', False)"
    using t1 by simp
  have 2: "tags_after tagged_on
        (fst (stop_instances calm state_tags [plain_instance ''a''] empty_world)) ''a'' ''started-by''
       = None"
    using t2 by simp
  have 3: "filter propagating
        (trace (fst (stop_instances calm state_tags [plain_instance ''a''] empty_world))) = []"
    using t1 by (simp add: empty_world_def)
  from s m o 1 2 3 show ?thesis by blast
qed

section \<open>The convergence check and the hook lookup, in general\<close>

text \<open>
  The evaluations above are instances of what the code does on every input. A batch
  whose body reaches \<open>break\<close> ends the whole run, with nothing more yielded.
\<close>

lemma stop_batches_break:
  "stop_batch client ks ts b w = (w1, out, Break)
     \<Longrightarrow> stop_batches client ks ts (b # rest) w = (w1, out, None)"
  by simp

text \<open>
  The re-check of the stop path reaches \<open>break\<close> whenever the status query after the
  sleep returns as many groups as the batch has members.
\<close>

lemma recheck_stop_full_count:
  assumes "length stopped < length ids"
      and "describe_auto_scaling_groups client (Suc (tick w)) ids = Inr resp"
      and "length resp = length b"
  shows "recheck_stop client b ids stopped n w =
           (record_call (DescribeGroups ids) None (record_call (Sleep 5) None w),
            map GroupName resp, n, Break)"
  using assms
  by (simp add: recheck_stop_def get_asg_status_def tick_def asg_status_of_def jmes_status_def
      comp_def)

text \<open>
  Hence, for a batch of plain groups whose first status queries fell short: when the
  re-check finds the full count, the batch yields nothing and the batches after it are
  never looked at.
\<close>

lemma stop_full_recheck_abandons_run:
  assumes "ecs_ids b = []"
      and "stop_mutate client b w = (w1, [], stopped, None)"
      and "length stopped < length (plain_ids b)"
      and "describe_auto_scaling_groups client (Suc (tick w1)) (plain_ids b) = Inr resp"
      and "length resp = length b"
  shows "stop_batches client ks ts (b # rest) w =
           (record_call (DescribeGroups (plain_ids b)) None (record_call (Sleep 5) None w1),
            [], None)"
proof -
  have r1: "recheck_stop client b (ecs_ids b) [] 0 w1 = (w1, [], 0, Continue)"
    using assms(1) by (simp add: recheck_stop_def)
  have r2: "recheck_stop client b (plain_ids b) stopped 0 w1 =
           (record_call (DescribeGroups (plain_ids b)) None (record_call (Sleep 5) None w1),
            map GroupName resp, 0, Break)"
    using assms(3,4,5) by (rule recheck_stop_full_count)
  have "stop_batch client ks ts b w =
          (record_call (DescribeGroups (plain_ids b)) None (record_call (Sleep 5) None w1), [], Break)"
    using assms(2) r1 r2 by (simp add: stop_batch_def stop_converge_def)
  then show ?thesis by simp
qed

text \<open>
  The counter \<open>get_status_count\<close> starts at 0 in every batch and each of the two
  re-checks raises it by at most one: it never passes 2, the test \<open>> 3\<close> never holds,
  and the convergence check of the stop path writes no log line at all.
\<close>

lemma recheck_stop_count:
  "fst (snd (snd (recheck_stop client b ids stopped n w))) \<le> Suc n"
  by (simp add: recheck_stop_def case_prod_beta Let_def split: sum.splits)

lemma recheck_stop_logs:
  "n < 3 \<Longrightarrow> logs (fst (recheck_stop client b ids stopped n w)) = logs w"
  by (simp add: recheck_stop_def get_asg_status_def Let_def split: sum.splits)

lemma stop_converge_never_warns:
  "logs (fst (stop_converge client b es st w)) = logs w
   \<and> fst (snd (snd (snd (stop_converge client b es st w)))) \<le> 2"
proof -
  obtain w1 es' n1 c1 where r1: "recheck_stop client b (ecs_ids b) es 0 w = (w1, es', n1, c1)"
    by (cases "recheck_stop client b (ecs_ids b) es 0 w") auto
  have n1: "n1 \<le> 1" using recheck_stop_count [of client b "ecs_ids b" es 0 w] r1 by simp
  have l1: "logs w1 = logs w" using recheck_stop_logs [of 0 client b "ecs_ids b" es w] r1 by simp
  obtain w2 st' n2 c2 where r2: "recheck_stop client b (plain_ids b) st n1 w1 = (w2, st', n2, c2)"
    by (cases "recheck_stop client b (plain_ids b) st n1 w1") auto
  have n2: "n2 \<le> 2" using recheck_stop_count [of client b "plain_ids b" st n1 w1] r2 n1 by simp
  have l2: "logs w2 = logs w"
    using recheck_stop_logs [of n1 client b "plain_ids b" st w1] r2 n1 l1 by simp
  show ?thesis using r1 r2 n1 n2 l1 l2 by (cases c1) (simp_all add: stop_converge_def)
qed

text \<open>
  The convergence check of the start path never asks for the status again: all it adds
  to the trace are sleeps, it writes no log line, and it never reaches \<open>break\<close>.
\<close>

lemma recheck_start_continues:
  "n < 3 \<Longrightarrow> recheck_start ids started n w =
     (if length started < length ids then (record_call (Sleep 5) None w, Suc n, Continue)
      else (w, n, Continue))"
  by (simp add: recheck_start_def Let_def)

lemma start_converge_never_breaks:
  "snd (snd (start_converge b es st w)) = Continue
   \<and> fst (snd (start_converge b es st w)) \<le> 2
   \<and> logs (fst (start_converge b es st w)) = logs w
   \<and> list_all (\<lambda>x. fst x = Sleep 5) (new_calls w (fst (start_converge b es st w)))"
  by (simp add: start_converge_def recheck_start_continues new_calls_def)

text \<open>
  Two groups are started and the status queries report the first one only: the engine
  sleeps once and yields what the last query before the sleep returned.
\<close>

lemma start_never_rechecks:
  "start_instances lagging no_tags
     [(''a'', \<lparr>desired_capacity = 2, min_size = 1\<rparr>), (''b'', \<lparr>desired_capacity = 1, min_size = 1\<rparr>)]
     [plain_instance ''a'', plain_instance ''b''] empty_world =
     (\<lparr>trace = [(UpdateGroup ''a'' 2 1, None), (DescribeGroups [''a'', ''b''], None),
                (UpdateGroup ''b'' 1 1, None), (DescribeGroups [''a'', ''b''], None),
                (Sleep 5, None)],
       logs = [Log INFO ''No affected ECS found...'' []]\<rparr>,
      [(''a'', ''running'')], None)"
  by (simp add: engine_defs scenario_defs)

text \<open>
  After a scale-down that did not raise, the list of stopped names is the list of all
  names of the status response, whatever the in-service counts are.
\<close>

lemma stop_group_keeps_every_name:
  assumes "update_auto_scaling_group client (tick w) asg 0 0 = None"
      and "describe_auto_scaling_groups client (Suc (tick w)) ids = Inr resp"
  shows "snd (stop_group client asg ids stopped w) = map GroupName resp"
  using assms
  by (simp add: stop_group_def get_asg_status_def tick_def asg_status_of_def jmes_status_def comp_def)

text \<open>
  The hook preparation handles a \<open>ClientError\<close>, and nothing else: with no termination
  hook it raises \<open>IndexError\<close>, and the loop over the ECS groups ends there.
\<close>

lemma except_client_error_swallows:
  "except_client_error (ClientError m) w = (logger ERROR ERR_HOOK_TIMEOUT [PyStr m] w, None)"
  by (simp add: except_client_error_def)

lemma prepare_for_stop_without_hook:
  assumes "describe_lifecycle_hooks client (tick w) asg = Inr hooks"
      and "filter (\<lambda>h. contains h ''Termination'') hooks = []"
  shows "prepare_for_stop client asg w = (record_call (DescribeHooks asg) None w, Some IndexError)"
  using assms
  by (simp add: prepare_for_stop_def get_asg_termination_lifecycle_hook_name_def
      except_client_error_def)

lemma stop_ecs_loop_raises:
  "prepare_for_stop client asg w = (w1, Some e)
     \<Longrightarrow> stop_ecs_loop client ids (asg # rest) stopped w = (w1, stopped, Some e)"
  by simp

end
